theory Spec2Isabelle
  imports Complex_Main "HOL-Library.AList"
begin

section \<open>Strings\<close>

text \<open>
  Source strings are modelled as \<^typ>\<open>string\<close>. The character classes the code
  relies on are modelled on ASCII: \<open>\s\<close> of a regular expression and \<open>trim\<close> on
  tab, line feed, vertical tab, form feed, carriage return and space, and
  \<open>toLowerCase\<close> on the letters A to Z; every other character is left as it is. On
  ASCII text this is what the source's functions do. Outside ASCII the source also folds
  the case of other letters and takes other characters for whitespace, so a statement
  whose conclusion depends on the case or the whitespace of a name is made for ASCII
  names: \<open>asciiText\<close> says that a text is ASCII.
\<close>

definition asciiText :: "string \<Rightarrow> bool" where
  "asciiText s = (\<forall>c \<in> set s. (of_char c :: nat) < 128)"

definition isSpace :: "char \<Rightarrow> bool" where
  "isSpace c = (c = CHR 0x09 \<or> c = CHR 0x0A \<or> c = CHR 0x0B \<or> c = CHR 0x0C
                \<or> c = CHR 0x0D \<or> c = CHR '' '')"

definition lowerChar :: "char \<Rightarrow> char" where
  "lowerChar c =
     (case map_of (zip ''ABCDEFGHIJKLMNOPQRSTUVWXYZ'' ''abcdefghijklmnopqrstuvwxyz'') c of
        Some l \<Rightarrow> l
      | None \<Rightarrow> c)"

definition toLowerCase :: "string \<Rightarrow> string" where
  "toLowerCase s = map lowerChar s"

definition endsWith :: "string \<Rightarrow> string \<Rightarrow> bool" where
  "endsWith s suffix = (take (length suffix) (rev s) = rev suffix)"

definition trim :: "string \<Rightarrow> string" where
  "trim s = rev (dropWhile isSpace (rev (dropWhile isSpace s)))"

text \<open>\<open>s.replace(/\s+/g, r)\<close>: every maximal run of whitespace becomes \<open>r\<close>.\<close>

function replaceSpaceRuns :: "string \<Rightarrow> string \<Rightarrow> string" where
  "replaceSpaceRuns r [] = []"
| "replaceSpaceRuns r (c # cs) =
     (if isSpace c then r @ replaceSpaceRuns r (dropWhile isSpace cs)
      else c # replaceSpaceRuns r cs)"
  by pat_completeness auto
termination
  by (relation "measure (\<lambda>(r, s). length s)")
     (auto simp: le_imp_less_Suc length_dropWhile_le)

text \<open>Decimal rendering of a number inside a template string.\<close>

fun showNat :: "nat \<Rightarrow> string" where
  "showNat n =
     (if n < 10 then [''0123456789'' ! n]
      else showNat (n div 10) @ [''0123456789'' ! (n mod 10)])"

definition showInt :: "int \<Rightarrow> string" where
  "showInt i = (if i < 0 then CHR ''-'' # showNat (nat (- i)) else showNat (nat i))"

definition showBool :: "bool \<Rightarrow> string" where
  "showBool b = (if b then ''true'' else ''false'')"

text \<open>
  \<open>JSON.stringify\<close> of an array of strings, as used for the glob list: each string is
  quoted, with the quote, the backslash and the control characters escaped.
\<close>

definition hexDigit :: "nat \<Rightarrow> char" where
  "hexDigit n = ''0123456789abcdef'' ! (n mod 16)"

definition escapeChar :: "char \<Rightarrow> string" where
  "escapeChar c =
     (if c = CHR 0x22 then [CHR 0x5C, CHR 0x22]
      else if c = CHR 0x5C then [CHR 0x5C, CHR 0x5C]
      else if c = CHR 0x08 then [CHR 0x5C, CHR ''b'']
      else if c = CHR 0x0C then [CHR 0x5C, CHR ''f'']
      else if c = CHR 0x0A then [CHR 0x5C, CHR ''n'']
      else if c = CHR 0x0D then [CHR 0x5C, CHR ''r'']
      else if c = CHR 0x09 then [CHR 0x5C, CHR ''t'']
      else if (of_char c :: nat) < 32
        then [CHR 0x5C, CHR ''u'', CHR ''0'', CHR ''0'',
              hexDigit (of_char c div 16), hexDigit (of_char c)]
      else [c])"

definition quoteString :: "string \<Rightarrow> string" where
  "quoteString s = [CHR 0x22] @ concat (map escapeChar s) @ [CHR 0x22]"

fun joinWith :: "string \<Rightarrow> string list \<Rightarrow> string" where
  "joinWith sep [] = []"
| "joinWith sep [x] = x"
| "joinWith sep (x # y # ys) = x @ sep @ joinWith sep (y # ys)"

definition JSON_stringify :: "string list \<Rightarrow> string" where
  "JSON_stringify xs = ''['' @ joinWith '','' (map quoteString xs) @ '']''"

section \<open>Data model (types.ts)\<close>

record 'd AnalysisResult =
  success :: bool
  data :: "'d option"
  error :: "string option"
  rawOutput :: "string option"

record Rule =
  name :: string
  description :: string
  examples :: "string list option"
  category :: "string option"

record RuleCategory =
  title :: string
  description :: "string option"
  rules :: "Rule list"
  globs :: "string list option"
  alwaysApply :: "bool option"
  ruleType :: "string option"

text \<open>
  \<open>AnalysisData\<close> is an object with open string keys; it is modelled by its entries in
  the order \<open>Object.entries\<close> enumerates them. A key bound to \<open>undefined\<close> is bound
  to \<^const>\<open>None\<close>.
\<close>

type_synonym AnalysisData = "(string \<times> RuleCategory option) list"

record RulesManagerResult =
  success :: bool
  created :: "string list"
  updated :: "string list"
  unchanged :: "string list"
  error :: "string option"

text \<open>
  An \<open>ExistingRuleFile\<close>; its \<open>path\<close> field is the file name joined to the rules
  directory and is not read by the code modelled here.
\<close>

record ExistingRuleFile =
  filename :: string
  content :: string

section \<open>The analyzer (analyzer.ts)\<close>

text \<open>A value returned by \<open>JSON.parse\<close>.\<close>

datatype json =
    JNull
  | JBool bool
  | JNumber rat
  | JString string
  | JArray "json list"
  | JObject "(string \<times> json) list"

text \<open>
  \<open>s.match(/\{[\s\S]*\}/)\<close>: the leftmost match starts at the first opening brace that
  has a closing brace after it, and the greedy star extends it to the last closing
  brace of the string. Any closing brace after a later opening brace also follows the
  first one, so the match starts at the first opening brace or there is none.
\<close>

definition jsonMatch :: "string \<Rightarrow> string option" where
  "jsonMatch s =
     (case dropWhile (\<lambda>c. c \<noteq> CHR ''{'') s of
        [] \<Rightarrow> None
      | b # rest \<Rightarrow>
          if CHR ''}'' \<in> set rest
          then Some (b # rev (dropWhile (\<lambda>c. c \<noteq> CHR ''}'') (rev rest)))
          else None)"

text \<open>
  The specification's wording of the extraction, for comparison with \<^const>\<open>jsonMatch\<close>:
  the first balanced top-level object substring found by brace matching. The scan starts
  at the first opening brace and ends at the closing brace that brings the nesting depth
  back to zero.
\<close>

fun scanBalanced :: "nat \<Rightarrow> string \<Rightarrow> string option" where
  "scanBalanced depth [] = None"
| "scanBalanced depth (c # cs) =
     (if c = CHR ''{'' then map_option ((#) c) (scanBalanced (Suc depth) cs)
      else if c = CHR ''}'' then
        (if depth \<le> 1 then Some [c] else map_option ((#) c) (scanBalanced (depth - 1) cs))
      else map_option ((#) c) (scanBalanced depth cs))"

definition spec_firstBalancedObject :: "string \<Rightarrow> string option" where
  "spec_firstBalancedObject s =
     (case dropWhile (\<lambda>c. c \<noteq> CHR ''{'') s of
        [] \<Rightarrow> None
      | b # rest \<Rightarrow> map_option ((#) b) (scanBalanced 1 rest))"

text \<open>
  \<open>analyzeCodebase\<close>, from the moment the child process closes: \<open>code\<close> is its exit
  code (\<open>null\<close> when a signal ended it), \<open>stdout\<close> and \<open>stderr\<close> the text collected
  from it. \<open>JSON.parse\<close> is a parameter: it returns the parsed value or the message of
  the \<open>SyntaxError\<close> it throws. The thrown error is caught by the handler's
  \<open>try\<close>/\<open>catch\<close>.
\<close>

definition showCode :: "int option \<Rightarrow> string" where
  "showCode code = (case code of None \<Rightarrow> ''null'' | Some n \<Rightarrow> showInt n)"

definition parseFailure :: "string \<Rightarrow> string \<Rightarrow> json AnalysisResult" where
  "parseFailure message stdout =
     \<lparr>AnalysisResult.success = False, data = None,
      error = Some (''Failed to parse cursor-agent output as JSON: '' @ message),
      rawOutput = Some stdout\<rparr>"

definition analysisSuccess :: "json \<Rightarrow> string \<Rightarrow> json AnalysisResult" where
  "analysisSuccess parsed stdout =
     \<lparr>AnalysisResult.success = True, data = Some parsed, error = None,
      rawOutput = Some stdout\<rparr>"

text \<open>
  The wrapper test \<open>typeof parsed === 'object' && parsed !== null && 'result' in parsed\<close>
  and the read of \<open>wrapper.result\<close>: the value of the member \<open>result\<close> of an object,
  when it has one. An array has no such member.
\<close>

definition wrappedResult :: "json \<Rightarrow> json option" where
  "wrappedResult parsed =
     (case parsed of
        JObject members \<Rightarrow> map_of members ''result''
      | _ \<Rightarrow> None)"

definition analyzeCodebase ::
  "(string \<Rightarrow> string + json) \<Rightarrow> int option \<Rightarrow> string \<Rightarrow> string \<Rightarrow> json AnalysisResult" where
  "analyzeCodebase JSON_parse code stdout stderr =
     (if code \<noteq> Some 0 then
        \<lparr>AnalysisResult.success = False, data = None,
         error = Some (''cursor-agent exited with code '' @ showCode code @ '': '' @ stderr),
         rawOutput = Some stdout\<rparr>
      else
        (case jsonMatch stdout of
           None \<Rightarrow>
             \<lparr>AnalysisResult.success = False, data = None,
              error = Some ''No JSON found in cursor-agent output'',
              rawOutput = Some stdout\<rparr>
         | Some jsonText \<Rightarrow>
             (case JSON_parse jsonText of
                Inl message \<Rightarrow> parseFailure message stdout
              | Inr parsed \<Rightarrow>
                  (case wrappedResult parsed of
                     Some (JString result) \<Rightarrow>
                       (case jsonMatch result of
                          Some resultText \<Rightarrow>
                            (case JSON_parse resultText of
                               Inl message \<Rightarrow> parseFailure message stdout
                             | Inr inner \<Rightarrow> analysisSuccess inner stdout)
                        | None \<Rightarrow> analysisSuccess parsed stdout)
                   | _ \<Rightarrow> analysisSuccess parsed stdout))))"

text \<open>
  A \<open>JSON.parse\<close> known on finitely many texts, for running the analyzer on examples:
  the table lists texts with the values they parse to, and every other text is taken
  to raise.
\<close>

definition parseTable :: "(string \<times> json) list \<Rightarrow> string \<Rightarrow> string + json" where
  "parseTable table s =
     (case map_of table s of
        Some v \<Rightarrow> Inr v
      | None \<Rightarrow> Inl ''Unexpected token'')"

text \<open>\<open>parseRawOutput\<close>: the fallback structure built from raw text.\<close>

definition emptyCategory :: "string \<Rightarrow> RuleCategory" where
  "emptyCategory t =
     \<lparr>title = t, description = Some ''Extracted from raw output'', rules = [],
      globs = None, alwaysApply = None, ruleType = None\<rparr>"

definition parseRawOutput :: "string \<Rightarrow> AnalysisData option" where
  "parseRawOutput raw =
     Some
       [(''codePatterns'',
           Some ((emptyCategory ''Code Patterns & Style'')
             \<lparr>rules := rules (emptyCategory ''Code Patterns & Style'')
                @ [\<lparr>name = ''Analysis Output'', description = raw,
                     examples = None, category = None\<rparr>]\<rparr>)),
        (''frameworks'', Some (emptyCategory ''Frameworks & Libraries'')),
        (''structure'', Some (emptyCategory ''Project Structure'')),
        (''conventions'', Some (emptyCategory ''Coding Conventions'')),
        (''bestPractices'', Some (emptyCategory ''Best Practices''))]"

section \<open>The rules directory\<close>

text \<open>
  The state of the rules directory: \<open>listing\<close> is \<^const>\<open>None\<close> while the directory
  does not exist, and otherwise holds its files, name and text, in the order
  \<open>readdirSync\<close> enumerates them. A file is addressed by its name in the directory:
  the source joins the name to the path of the directory, and for a name without a path
  separator the joined path is that entry of the directory. A name with a separator
  would address a file elsewhere, which the listing does not hold, so a statement about
  the files a pass leaves is made for keys without separators (\<open>plainKeys\<close> below).
  Every call into the file system can raise: \<open>faults\<close> gives the message of the
  exception an operation raises, if it raises one (a read-only file, a directory that
  cannot be listed). An operation that raises leaves the directory as it was.
\<close>

datatype fsop = Mkdir | Readdir | ReadFile string | WriteFile string | Unlink string

record fsys =
  listing :: "(string \<times> string) list option"
  faults :: "fsop \<Rightarrow> string option"

definition ENOENT :: string where
  "ENOENT = ''ENOENT: no such file or directory''"

definition existsSync :: "fsys \<Rightarrow> bool" where
  "existsSync fs = (listing fs \<noteq> None)"

definition mkdirSync :: "fsys \<Rightarrow> string + fsys" where
  "mkdirSync fs =
     (case faults fs Mkdir of
        Some e \<Rightarrow> Inl e
      | None \<Rightarrow>
          (case listing fs of
             None \<Rightarrow> Inr (fs\<lparr>listing := Some []\<rparr>)
           | Some es \<Rightarrow> Inr fs))"

definition readdirSync :: "fsys \<Rightarrow> string + string list" where
  "readdirSync fs =
     (case faults fs Readdir of
        Some e \<Rightarrow> Inl e
      | None \<Rightarrow>
          (case listing fs of
             None \<Rightarrow> Inl ENOENT
           | Some es \<Rightarrow> Inr (map fst es)))"

definition readFileSync :: "fsys \<Rightarrow> string \<Rightarrow> string + string" where
  "readFileSync fs file =
     (case faults fs (ReadFile file) of
        Some e \<Rightarrow> Inl e
      | None \<Rightarrow>
          (case listing fs of
             None \<Rightarrow> Inl ENOENT
           | Some es \<Rightarrow>
               (case map_of es file of
                  None \<Rightarrow> Inl ENOENT
                | Some text \<Rightarrow> Inr text)))"

definition writeFileSync :: "fsys \<Rightarrow> string \<Rightarrow> string \<Rightarrow> string + fsys" where
  "writeFileSync fs file text =
     (case faults fs (WriteFile file) of
        Some e \<Rightarrow> Inl e
      | None \<Rightarrow>
          (case listing fs of
             None \<Rightarrow> Inl ENOENT
           | Some es \<Rightarrow> Inr (fs\<lparr>listing := Some (AList.update file text es)\<rparr>)))"

definition unlinkSync :: "fsys \<Rightarrow> string \<Rightarrow> string + fsys" where
  "unlinkSync fs file =
     (case faults fs (Unlink file) of
        Some e \<Rightarrow> Inl e
      | None \<Rightarrow>
          (case listing fs of
             None \<Rightarrow> Inl ENOENT
           | Some es \<Rightarrow>
               if file \<in> fst ` set es
               then Inr (fs\<lparr>listing := Some (AList.delete file es)\<rparr>)
               else Inl ENOENT))"

section \<open>The rules manager (rules-manager.ts)\<close>

definition ensureRulesDirectory :: "fsys \<Rightarrow> string + fsys" where
  "ensureRulesDirectory fs = (if \<not> existsSync fs then mkdirSync fs else Inr fs)"

text \<open>The three extensions of a rule file: \<open>.mdc\<close>, \<open>.md\<close> and \<open>.txt\<close>.\<close>

definition hasRuleExtension :: "string \<Rightarrow> bool" where
  "hasRuleExtension file =
     (endsWith file ''.mdc'' \<or> endsWith file ''.md'' \<or> endsWith file ''.txt'')"

fun readFiles :: "fsys \<Rightarrow> string list \<Rightarrow> string + ExistingRuleFile list" where
  "readFiles fs [] = Inr []"
| "readFiles fs (file # files) =
     (if hasRuleExtension file then
        (case readFileSync fs file of
           Inl e \<Rightarrow> Inl e
         | Inr text \<Rightarrow>
             (case readFiles fs files of
                Inl e \<Rightarrow> Inl e
              | Inr ruleFiles \<Rightarrow> Inr (\<lparr>filename = file, content = text\<rparr> # ruleFiles)))
      else readFiles fs files)"

definition readExistingRules :: "fsys \<Rightarrow> string + ExistingRuleFile list" where
  "readExistingRules fs =
     (if \<not> existsSync fs then Inr []
      else (case readdirSync fs of
              Inl e \<Rightarrow> Inl e
            | Inr files \<Rightarrow> readFiles fs files))"

text \<open>\<open>a || b\<close> on an optional string: an absent or empty \<open>a\<close> gives \<open>b\<close>.\<close>

definition orElse :: "string option \<Rightarrow> string \<Rightarrow> string" where
  "orElse a b = (case a of None \<Rightarrow> b | Some x \<Rightarrow> if x = [] then b else x)"

definition renderRule :: "Rule \<Rightarrow> string" where
  "renderRule rule =
     ''- **'' @ name rule @ ''**: '' @ Rule.description rule @ ''\<newline>''
     @ (case examples rule of
          None \<Rightarrow> []
        | Some exs \<Rightarrow> concat (map (\<lambda>example. ''  - '' @ example @ ''\<newline>'') exs))
     @ ''\<newline>''"

definition applyFlag :: "string \<Rightarrow> RuleCategory \<Rightarrow> bool" where
  "applyFlag categoryName cat =
     (case alwaysApply cat of
        Some flag \<Rightarrow> flag
      | None \<Rightarrow>
          if ruleType cat = Some ''always'' then True
          else (categoryName = ''bestPractices'' \<or> categoryName = ''conventions''))"

definition convertToMDC :: "string \<Rightarrow> RuleCategory \<Rightarrow> string" where
  "convertToMDC categoryName cat =
     ''---\<newline>''
     @ ''description: '' @ orElse (description cat) (title cat) @ ''\<newline>''
     @ (case globs cat of
          None \<Rightarrow> []
        | Some gs \<Rightarrow> if gs \<noteq> [] then ''globs: '' @ JSON_stringify gs @ ''\<newline>'' else [])
     @ ''alwaysApply: '' @ showBool (applyFlag categoryName cat) @ ''\<newline>''
     @ ''---\<newline>\<newline>''
     @ concat (map renderRule (rules cat))"

definition normalize :: "string \<Rightarrow> string" where
  "normalize s = replaceSpaceRuns '' '' (trim s)"

definition needsUpdate :: "string \<Rightarrow> string \<Rightarrow> bool" where
  "needsUpdate existingContent newContent = (normalize existingContent \<noteq> normalize newContent)"

definition generateFilename :: "string \<Rightarrow> string" where
  "generateFilename categoryName = replaceSpaceRuns ''-'' (toLowerCase categoryName) @ ''.mdc''"

text \<open>
  \<open>createSummary\<close>; \<open>now\<close> is the text of \<open>new Date().toISOString()\<close> at the call.
\<close>

fun summaryLines :: "AnalysisData \<Rightarrow> string" where
  "summaryLines [] = []"
| "summaryLines ((categoryName, None) # rest) = summaryLines rest"
| "summaryLines ((categoryName, Some cat) # rest) =
     (if rules cat = [] then summaryLines rest
      else ''- ['' @ title cat @ ''](./'' @ generateFilename categoryName @ '') - ''
           @ orElse (description cat) (''Rules for '' @ title cat)
           @ '' ('' @ showNat (length (rules cat)) @ '' rules)\<newline>''
           @ summaryLines rest)"

definition createSummary :: "string \<Rightarrow> AnalysisData \<Rightarrow> string" where
  "createSummary now analysisData =
     ''# Cursor Rules - Auto Generated\<newline>\<newline>''
     @ ''This directory contains automatically generated rules for this codebase.\<newline>\<newline>''
     @ ''## Rule Categories\<newline>\<newline>''
     @ summaryLines analysisData
     @ ''\<newline>---\<newline>\<newline>''
     @ ''Generated on: '' @ now @ ''\<newline>''
     @ ''Generator: agent-rule-sync\<newline>''"

text \<open>
  \<open>cleanupOldRules\<close>. The result pairs what the call returns (the removed names, or the
  message of the exception that ended it) with the directory it leaves.
\<close>

fun removeOld ::
  "bool \<Rightarrow> string list \<Rightarrow> string list \<Rightarrow> fsys \<Rightarrow> (string + string list) \<times> fsys" where
  "removeOld dryRun keepLower [] fs = (Inr [], fs)"
| "removeOld dryRun keepLower (file # files) fs =
     (if toLowerCase file \<notin> set keepLower \<and> hasRuleExtension file then
        (case (if \<not> dryRun then unlinkSync fs file else Inr fs) of
           Inl e \<Rightarrow> (Inl e, fs)
         | Inr fs' \<Rightarrow>
             (case removeOld dryRun keepLower files fs' of
                (Inl e, fs'') \<Rightarrow> (Inl e, fs'')
              | (Inr removed, fs'') \<Rightarrow> (Inr (file # removed), fs'')))
      else removeOld dryRun keepLower files fs)"

definition cleanupOldRules ::
  "fsys \<Rightarrow> string list \<Rightarrow> bool \<Rightarrow> (string + string list) \<times> fsys" where
  "cleanupOldRules fs keepFiles dryRun =
     (if \<not> existsSync fs then (Inr [], fs)
      else (case readdirSync fs of
              Inl e \<Rightarrow> (Inl e, fs)
            | Inr existingFiles \<Rightarrow>
                removeOld dryRun (map toLowerCase keepFiles) existingFiles fs))"

text \<open>
  \<open>writeRules\<close>. \<open>writeUnlessDry\<close> is the guarded write
  \<open>if (!dryRun) fs.writeFileSync(...)\<close>; \<open>processCategories\<close> is the loop over the
  entries of the analysis data, \<open>writeSummary\<close> the summary step, and \<open>tryWriteRules\<close>
  the body of the \<open>try\<close> block, which ends with the result or with the message of the
  exception raised. The console output of the verbose mode is not modelled.
\<close>

definition writeUnlessDry :: "bool \<Rightarrow> fsys \<Rightarrow> string \<Rightarrow> string \<Rightarrow> string + fsys" where
  "writeUnlessDry dryRun fs file text = (if \<not> dryRun then writeFileSync fs file text else Inr fs)"

fun processCategories ::
  "bool \<Rightarrow> ExistingRuleFile list \<Rightarrow> AnalysisData \<Rightarrow> RulesManagerResult \<Rightarrow> fsys
     \<Rightarrow> (string + RulesManagerResult) \<times> fsys" where
  "processCategories dryRun existingRules [] result fs = (Inr result, fs)"
| "processCategories dryRun existingRules ((categoryName, None) # rest) result fs =
     processCategories dryRun existingRules rest result fs"
| "processCategories dryRun existingRules ((categoryName, Some cat) # rest) result fs =
     (if rules cat = [] then processCategories dryRun existingRules rest result fs
      else
        (let fname = generateFilename categoryName;
             mdc = convertToMDC categoryName cat
         in case find (\<lambda>r. toLowerCase (filename r) = toLowerCase fname) existingRules of
              Some existingFile \<Rightarrow>
                if needsUpdate (content existingFile) mdc then
                  (case writeUnlessDry dryRun fs fname mdc of
                     Inl e \<Rightarrow> (Inl e, fs)
                   | Inr fs' \<Rightarrow>
                       processCategories dryRun existingRules rest
                         (result\<lparr>updated := updated result @ [fname]\<rparr>) fs')
                else
                  processCategories dryRun existingRules rest
                    (result\<lparr>unchanged := unchanged result @ [fname]\<rparr>) fs
            | None \<Rightarrow>
                (case writeUnlessDry dryRun fs fname mdc of
                   Inl e \<Rightarrow> (Inl e, fs)
                 | Inr fs' \<Rightarrow>
                     processCategories dryRun existingRules rest
                       (result\<lparr>created := created result @ [fname]\<rparr>) fs')))"

definition summaryFilename :: string where
  "summaryFilename = ''README.md''"

definition writeSummary ::
  "bool \<Rightarrow> ExistingRuleFile list \<Rightarrow> string \<Rightarrow> RulesManagerResult \<Rightarrow> fsys
     \<Rightarrow> (string + RulesManagerResult) \<times> fsys" where
  "writeSummary dryRun existingRules summary result fs =
     (if toLowerCase summaryFilename \<notin> set (map (\<lambda>r. toLowerCase (filename r)) existingRules)
      then
        (case writeUnlessDry dryRun fs summaryFilename summary of
           Inl e \<Rightarrow> (Inl e, fs)
         | Inr fs' \<Rightarrow> (Inr (result\<lparr>created := created result @ [summaryFilename]\<rparr>), fs'))
      else
        (case find (\<lambda>r. toLowerCase (filename r) = toLowerCase summaryFilename) existingRules of
           Some existingFile \<Rightarrow>
             if needsUpdate (content existingFile) summary then
               (case writeUnlessDry dryRun fs summaryFilename summary of
                  Inl e \<Rightarrow> (Inl e, fs)
                | Inr fs' \<Rightarrow> (Inr (result\<lparr>updated := updated result @ [summaryFilename]\<rparr>), fs'))
             else if summaryFilename \<notin> set (unchanged result)
               then (Inr (result\<lparr>unchanged := unchanged result @ [summaryFilename]\<rparr>), fs)
               else (Inr result, fs)
         | None \<Rightarrow>
             if summaryFilename \<notin> set (unchanged result)
             then (Inr (result\<lparr>unchanged := unchanged result @ [summaryFilename]\<rparr>), fs)
             else (Inr result, fs)))"

definition initialResult :: RulesManagerResult where
  "initialResult = \<lparr>success = True, created = [], updated = [], unchanged = [], error = None\<rparr>"

definition tryWriteRules ::
  "string \<Rightarrow> AnalysisData \<Rightarrow> fsys \<Rightarrow> bool \<Rightarrow> (string + RulesManagerResult) \<times> fsys" where
  "tryWriteRules now analysisData fs dryRun =
     (case (if \<not> dryRun then ensureRulesDirectory fs else Inr fs) of
        Inl e \<Rightarrow> (Inl e, fs)
      | Inr fs1 \<Rightarrow>
          (case readExistingRules fs1 of
             Inl e \<Rightarrow> (Inl e, fs1)
           | Inr existingRules \<Rightarrow>
               (case processCategories dryRun existingRules analysisData initialResult fs1 of
                  (Inl e, fs2) \<Rightarrow> (Inl e, fs2)
                | (Inr result, fs2) \<Rightarrow>
                    (case writeSummary dryRun existingRules
                            (createSummary now analysisData) result fs2 of
                       (Inl e, fs3) \<Rightarrow> (Inl e, fs3)
                     | (Inr result', fs3) \<Rightarrow>
                         (case cleanupOldRules fs3
                                 (created result' @ updated result' @ unchanged result')
                                 dryRun of
                            (Inl e, fs4) \<Rightarrow> (Inl e, fs4)
                          | (Inr removed, fs4) \<Rightarrow> (Inr result', fs4))))))"

definition writeRules ::
  "string \<Rightarrow> AnalysisData \<Rightarrow> fsys \<Rightarrow> bool \<Rightarrow> RulesManagerResult \<times> fsys" where
  "writeRules now analysisData fs dryRun =
     (case tryWriteRules now analysisData fs dryRun of
        (Inr result, fs') \<Rightarrow> (result, fs')
      | (Inl message, fs') \<Rightarrow>
          (\<lparr>success = False, created = [], updated = [], unchanged = [],
            error = Some message\<rparr>, fs'))"

section \<open>The orchestrator (index.ts)\<close>

text \<open>
  \<open>generateRules\<close>, given what its two awaited calls returned: whether the agent is
  installed and the result of the analysis. The output directory is the directory whose
  state is \<open>fs\<close>.
\<close>

definition failed :: "string \<Rightarrow> RulesManagerResult" where
  "failed message =
     \<lparr>success = False, created = [], updated = [], unchanged = [], error = Some message\<rparr>"

definition withFallback :: "AnalysisData AnalysisResult \<Rightarrow> AnalysisData AnalysisResult" where
  "withFallback analysisResult =
     (case rawOutput analysisResult of
        None \<Rightarrow> analysisResult
      | Some raw \<Rightarrow>
          if raw = [] then analysisResult
          else (case parseRawOutput raw of
                  None \<Rightarrow> analysisResult
                | Some parsedData \<Rightarrow>
                    analysisResult\<lparr>data := Some parsedData, AnalysisResult.success := True\<rparr>))"

definition generateRules ::
  "bool \<Rightarrow> AnalysisData AnalysisResult \<Rightarrow> string \<Rightarrow> fsys \<Rightarrow> bool
     \<Rightarrow> RulesManagerResult \<times> fsys" where
  "generateRules installed analysisResult now fs dryRun =
     (if \<not> installed then
        (failed ''cursor-agent is not installed or not accessible in PATH'', fs)
      else
        (let analysisResult' =
               (if \<not> AnalysisResult.success analysisResult then withFallback analysisResult
                else analysisResult)
         in if \<not> AnalysisResult.success analysisResult' then
              (failed (orElse (AnalysisResult.error analysisResult') ''Analysis failed''), fs)
            else
              (case data analysisResult' of
                 None \<Rightarrow> (failed ''No analysis data returned'', fs)
               | Some analysisData \<Rightarrow> writeRules now analysisData fs dryRun)))"

section \<open>Notions used in the statements\<close>

text \<open>
  The loop of \<open>writeRules\<close> and the loop of \<open>createSummary\<close> skip an entry when
  \<open>!category || !category.rules || category.rules.length === 0\<close>. The entries that are
  not skipped are the live entries, and \<open>targets\<close> lists the file names derived from
  their keys. \<open>classifyOne\<close> is the outcome the loop reaches for one live entry against the
  snapshot of the existing files, and \<open>classified\<close> collects the outcomes of all entries
  in the result. \<open>stale\<close> is the test \<open>cleanupOldRules\<close> applies to a listed file.
\<close>

definition skipped :: "RuleCategory option \<Rightarrow> bool" where
  "skipped c = (case c of None \<Rightarrow> True | Some cat \<Rightarrow> rules cat = [])"

fun liveEntries :: "AnalysisData \<Rightarrow> (string \<times> RuleCategory) list" where
  "liveEntries [] = []"
| "liveEntries ((categoryName, None) # rest) = liveEntries rest"
| "liveEntries ((categoryName, Some cat) # rest) =
     (if rules cat = [] then liveEntries rest else (categoryName, cat) # liveEntries rest)"

definition targets :: "AnalysisData \<Rightarrow> string list" where
  "targets d = map (\<lambda>(categoryName, cat). generateFilename categoryName) (liveEntries d)"

datatype outcome = Created | Updated | Unchanged

definition classifyOne :: "ExistingRuleFile list \<Rightarrow> string \<Rightarrow> RuleCategory \<Rightarrow> outcome" where
  "classifyOne existingRules categoryName cat =
     (case find (\<lambda>r. toLowerCase (filename r) = toLowerCase (generateFilename categoryName))
             existingRules of
        None \<Rightarrow> Created
      | Some existingFile \<Rightarrow>
          if needsUpdate (content existingFile) (convertToMDC categoryName cat)
          then Updated else Unchanged)"

definition outcomeNames :: "outcome \<Rightarrow> ExistingRuleFile list \<Rightarrow> AnalysisData \<Rightarrow> string list" where
  "outcomeNames out existingRules d =
     map (\<lambda>(categoryName, cat). generateFilename categoryName)
       (filter (\<lambda>(categoryName, cat). classifyOne existingRules categoryName cat = out)
          (liveEntries d))"

definition classified ::
  "ExistingRuleFile list \<Rightarrow> AnalysisData \<Rightarrow> RulesManagerResult \<Rightarrow> RulesManagerResult" where
  "classified existingRules d result =
     result\<lparr>created := created result @ outcomeNames Created existingRules d,
            updated := updated result @ outcomeNames Updated existingRules d,
            unchanged := unchanged result @ outcomeNames Unchanged existingRules d\<rparr>"

definition stale :: "string list \<Rightarrow> string \<Rightarrow> bool" where
  "stale keepFiles file =
     (toLowerCase file \<notin> set (map toLowerCase keepFiles) \<and> hasRuleExtension file)"

text \<open>
  Example inputs: a rule, a category with a title and a list of rules and nothing else,
  a directory with the given files in which no operation raises, a directory (or the
  place of a missing one) in which one given operation raises with a given message, and
  a directory in which writing one file raises because the file is read-only.
\<close>

definition exampleRule :: Rule where
  "exampleRule = \<lparr>name = ''R1'', description = ''D1'', examples = None, category = None\<rparr>"

definition exampleCategory :: "string \<Rightarrow> Rule list \<Rightarrow> RuleCategory" where
  "exampleCategory t rs =
     \<lparr>title = t, description = None, rules = rs, globs = None, alwaysApply = None,
      ruleType = None\<rparr>"

definition directory :: "(string \<times> string) list \<Rightarrow> fsys" where
  "directory es = \<lparr>listing = Some es, faults = (\<lambda>operation. None)\<rparr>"

definition faultyDirectory :: "(string \<times> string) list option \<Rightarrow> fsop \<Rightarrow> string \<Rightarrow> fsys" where
  "faultyDirectory files raising message =
     \<lparr>listing = files,
      faults = (\<lambda>operation. if operation = raising then Some message else None)\<rparr>"

definition readOnlyDirectory :: "(string \<times> string) list \<Rightarrow> string \<Rightarrow> fsys" where
  "readOnlyDirectory es file =
     \<lparr>listing = Some es,
      faults = (\<lambda>operation. if operation = WriteFile file
                             then Some ''EACCES: permission denied'' else None)\<rparr>"

text \<open>
  The notions of the statement about repeated synchronization. A directory has no faults
  when no file system operation raises in it; its entries are its files, none while it
  does not exist. A list of names is case-exact for a directory when no file of the
  directory differs from one of the names in letter case only. A timestamp is a
  non-empty ASCII text without whitespace, as \<open>toISOString\<close> returns it. The keys of
  the data are plain when the key of every live category is ASCII and holds neither a
  slash nor a backslash, so that the file name derived from it is an entry of the
  directory. \<open>snapshot\<close> is what \<open>readExistingRules\<close> reads from a directory without
  faults, and \<open>loopListing\<close> the files the category loop leaves there. A directory is in
  sync with the data when every live category has its file, with a text that needs no
  update, and the summary document is there with the text of a summary of that time, up
  to whitespace.
\<close>

definition noFaults :: "fsys \<Rightarrow> bool" where
  "noFaults fs = (\<forall>operation. faults fs operation = None)"

definition entries :: "fsys \<Rightarrow> (string \<times> string) list" where
  "entries fs = (case listing fs of None \<Rightarrow> [] | Some es \<Rightarrow> es)"

definition caseExact :: "string list \<Rightarrow> (string \<times> string) list \<Rightarrow> bool" where
  "caseExact names es =
     (\<forall>n \<in> fst ` set es. \<forall>f \<in> set names. toLowerCase n = toLowerCase f \<longrightarrow> n = f)"

definition timestampLike :: "string \<Rightarrow> bool" where
  "timestampLike t = (t \<noteq> [] \<and> asciiText t \<and> (\<forall>c \<in> set t. \<not> isSpace c))"

definition plainKeys :: "AnalysisData \<Rightarrow> bool" where
  "plainKeys d =
     (\<forall>(categoryName, cat) \<in> set (liveEntries d).
        asciiText categoryName \<and> CHR 0x00 \<notin> set categoryName
        \<and> CHR ''/'' \<notin> set categoryName \<and> CHR 0x5C \<notin> set categoryName)"

definition asciiNames :: "string list \<Rightarrow> bool" where
  "asciiNames names = (\<forall>n \<in> set names. asciiText n)"

definition snapshot :: "(string \<times> string) list \<Rightarrow> ExistingRuleFile list" where
  "snapshot es =
     map (\<lambda>(n, t). \<lparr>filename = n, content = t\<rparr>) (filter (\<lambda>(n, t). hasRuleExtension n) es)"

fun loopListing ::
  "ExistingRuleFile list \<Rightarrow> AnalysisData \<Rightarrow> (string \<times> string) list \<Rightarrow> (string \<times> string) list" where
  "loopListing ex [] es = es"
| "loopListing ex ((categoryName, None) # rest) es = loopListing ex rest es"
| "loopListing ex ((categoryName, Some cat) # rest) es =
     (if rules cat = [] \<or> classifyOne ex categoryName cat = Unchanged
      then loopListing ex rest es
      else loopListing ex rest
             (AList.update (generateFilename categoryName) (convertToMDC categoryName cat) es))"

definition inSync :: "string \<Rightarrow> AnalysisData \<Rightarrow> (string \<times> string) list \<Rightarrow> bool" where
  "inSync now d es =
     (distinct (map fst es)
      \<and> caseExact (summaryFilename # targets d) es
      \<and> (\<forall>(k, cat) \<in> set (liveEntries d).
            \<exists>t. map_of es (generateFilename k) = Some t
                 \<and> \<not> needsUpdate t (convertToMDC k cat))
      \<and> (\<exists>t. map_of es summaryFilename = Some t
               \<and> normalize t = normalize (createSummary now d)))"

section \<open>Properties of the analyzer\<close>

subsection \<open>What the regular expression matches\<close>

lemma jsonMatch_SomeD:
  assumes "jsonMatch s = Some m"
  shows "\<exists>pre mid post. s = pre @ m @ post \<and> m = CHR ''{'' # mid @ [CHR ''}'']
           \<and> CHR ''{'' \<notin> set pre \<and> CHR ''}'' \<notin> set post"
proof -
  let ?open = "\<lambda>c. c \<noteq> CHR ''{''" and ?close = "\<lambda>c. c \<noteq> CHR ''}''"
  from assms obtain b rest where dw: "dropWhile ?open s = b # rest"
    and cl: "CHR ''}'' \<in> set rest"
    and m: "m = b # rev (dropWhile ?close (rev rest))"
    by (auto simp: jsonMatch_def split: list.splits if_splits)
  from dw have b: "b = CHR ''{''"
    using hd_dropWhile [of ?open s] by (metis list.sel(1) list.distinct(1))
  from cl have "dropWhile ?close (rev rest) \<noteq> []" by (simp add: dropWhile_eq_Nil_conv)
  then obtain x xs where dc: "dropWhile ?close (rev rest) = x # xs"
    by (cases "dropWhile ?close (rev rest)") auto
  then have x: "x = CHR ''}''"
    using hd_dropWhile [of ?close "rev rest"] by (metis list.sel(1) list.distinct(1))
  have "rev rest = takeWhile ?close (rev rest) @ x # xs"
    using takeWhile_dropWhile_id [of ?close "rev rest"] dc by simp
  then have rest: "rest = rev xs @ [x] @ rev (takeWhile ?close (rev rest))"
    by (metis append.assoc rev.simps(2) rev_append rev_rev_ident append_Cons append_Nil)
  have s: "s = takeWhile ?open s @ b # rest"
    using takeWhile_dropWhile_id [of ?open s] dw by simp
  have "s = takeWhile ?open s @ m @ rev (takeWhile ?close (rev rest))"
    using s rest m dc by simp
  moreover have "m = CHR ''{'' # rev xs @ [CHR ''}'']" using m dc b x by simp
  moreover have "CHR ''{'' \<notin> set (takeWhile ?open s)" by (auto dest: set_takeWhileD)
  moreover have "CHR ''}'' \<notin> set (rev (takeWhile ?close (rev rest)))"
    by (auto dest: set_takeWhileD)
  ultimately show ?thesis by blast
qed

lemma jsonMatch_NoneD:
  assumes "jsonMatch s = None"
  shows "\<not> (\<exists>pre mid post. s = pre @ CHR ''{'' # mid @ CHR ''}'' # post)"
proof
  let ?open = "\<lambda>c. c \<noteq> CHR ''{''"
  assume "\<exists>pre mid post. s = pre @ CHR ''{'' # mid @ CHR ''}'' # post"
  then obtain pre mid post where s: "s = pre @ CHR ''{'' # mid @ CHR ''}'' # post" by blast
  have "\<exists>rest. dropWhile ?open s = CHR ''{'' # rest \<and> CHR ''}'' \<in> set rest"
    unfolding s by (induction pre) auto
  with assms show False by (auto simp: jsonMatch_def)
qed

lemma jsonMatch_decomp:
  assumes "CHR ''{'' \<notin> set pre" and "CHR ''}'' \<notin> set post"
  shows "jsonMatch (pre @ CHR ''{'' # mid @ CHR ''}'' # post) = Some (CHR ''{'' # mid @ ''}'')"
proof -
  let ?open = "\<lambda>c. c \<noteq> CHR ''{''" and ?close = "\<lambda>c. c \<noteq> CHR ''}''"
  have "dropWhile ?open pre = []" using assms(1) by (auto simp: dropWhile_eq_Nil_conv)
  then have o: "dropWhile ?open (pre @ CHR ''{'' # mid @ CHR ''}'' # post)
                  = CHR ''{'' # mid @ CHR ''}'' # post"
    by (simp add: dropWhile_append3)
  have "dropWhile ?close (rev post) = []" using assms(2) by (auto simp: dropWhile_eq_Nil_conv)
  then have "dropWhile ?close (rev post @ CHR ''}'' # rev mid) = CHR ''}'' # rev mid"
    by (simp add: dropWhile_append3)
  then have c: "dropWhile ?close (rev (mid @ CHR ''}'' # post)) = CHR ''}'' # rev mid"
    by simp
  show ?thesis unfolding jsonMatch_def o by (simp only: c list.case) simp
qed

subsection \<open>Extraction of the JSON text\<close>

text \<open>
  Claim C1, as the code has it. On exit code 0 the analyzer takes the text from the first
  opening brace of the output to its last closing brace, and parses that text. When the
  output has no opening brace followed by a closing brace, the analyzer returns
  \<open>success: false\<close> with the error \<open>No JSON found in cursor-agent output\<close> and keeps the
  raw output. A text that does not parse gives \<open>success: false\<close> with the message of the
  parser and the raw output; a parsed value without a \<open>result\<close> member is the analysis
  data.
\<close>

theorem analyzeCodebase_extracts_greedy_match:
  "(jsonMatch stdout = None \<longrightarrow>
      (\<nexists>pre mid post. stdout = pre @ CHR ''{'' # mid @ CHR ''}'' # post)
      \<and> analyzeCodebase JSON_parse (Some 0) stdout stderr =
          \<lparr>AnalysisResult.success = False, data = None,
           error = Some ''No JSON found in cursor-agent output'',
           rawOutput = Some stdout\<rparr>)
   \<and> (\<forall>jsonText. jsonMatch stdout = Some jsonText \<longrightarrow>
         (\<exists>pre mid post. stdout = pre @ jsonText @ post
            \<and> jsonText = CHR ''{'' # mid @ [CHR ''}'']
            \<and> CHR ''{'' \<notin> set pre \<and> CHR ''}'' \<notin> set post)
         \<and> (\<forall>message. JSON_parse jsonText = Inl message \<longrightarrow>
               analyzeCodebase JSON_parse (Some 0) stdout stderr =
                 \<lparr>AnalysisResult.success = False, data = None,
                  error = Some (''Failed to parse cursor-agent output as JSON: '' @ message),
                  rawOutput = Some stdout\<rparr>)
         \<and> (\<forall>parsed. JSON_parse jsonText = Inr parsed \<and> wrappedResult parsed = None \<longrightarrow>
               analyzeCodebase JSON_parse (Some 0) stdout stderr =
                 \<lparr>AnalysisResult.success = True, data = Some parsed, error = None,
                  rawOutput = Some stdout\<rparr>))"
proof (intro conjI impI allI)
  assume "jsonMatch stdout = None"
  then show "\<nexists>pre mid post. stdout = pre @ CHR ''{'' # mid @ CHR ''}'' # post"
    by (rule jsonMatch_NoneD)
next
  assume "jsonMatch stdout = None"
  then show "analyzeCodebase JSON_parse (Some 0) stdout stderr =
          \<lparr>AnalysisResult.success = False, data = None,
           error = Some ''No JSON found in cursor-agent output'',
           rawOutput = Some stdout\<rparr>"
    by (simp add: analyzeCodebase_def)
next
  fix jsonText assume "jsonMatch stdout = Some jsonText"
  then show "\<exists>pre mid post. stdout = pre @ jsonText @ post
            \<and> jsonText = CHR ''{'' # mid @ [CHR ''}'']
            \<and> CHR ''{'' \<notin> set pre \<and> CHR ''}'' \<notin> set post"
    by (rule jsonMatch_SomeD)
next
  fix jsonText message
  assume "jsonMatch stdout = Some jsonText" "JSON_parse jsonText = Inl message"
  then show "analyzeCodebase JSON_parse (Some 0) stdout stderr =
                 \<lparr>AnalysisResult.success = False, data = None,
                  error = Some (''Failed to parse cursor-agent output as JSON: '' @ message),
                  rawOutput = Some stdout\<rparr>"
    by (simp add: analyzeCodebase_def parseFailure_def)
next
  fix jsonText parsed
  assume "jsonMatch stdout = Some jsonText"
    "JSON_parse jsonText = Inr parsed \<and> wrappedResult parsed = None"
  then show "analyzeCodebase JSON_parse (Some 0) stdout stderr =
                 \<lparr>AnalysisResult.success = True, data = Some parsed, error = None,
                  rawOutput = Some stdout\<rparr>"
    by (simp add: analyzeCodebase_def analysisSuccess_def)
qed

text \<open>
  The example of the specification: commentary around one object. The second half is an
  output without braces.
\<close>

theorem analyzeCodebase_extracts_greedy_match_witness:
  \<open>jsonMatch ''noise {"a":1} trailing'' = Some ''{"a":1}''
   \<and> parseTable [(''{"a":1}'', JObject [(''a'', JNumber 1)])] ''{"a":1}''
       = Inr (JObject [(''a'', JNumber 1)])
   \<and> wrappedResult (JObject [(''a'', JNumber 1)]) = None
   \<and> analyzeCodebase (parseTable [(''{"a":1}'', JObject [(''a'', JNumber 1)])]) (Some 0)
         ''noise {"a":1} trailing'' [] =
       \<lparr>AnalysisResult.success = True, data = Some (JObject [(''a'', JNumber 1)]),
        error = None, rawOutput = Some ''noise {"a":1} trailing''\<rparr>
   \<and> jsonMatch ''no braces here'' = None
   \<and> analyzeCodebase (parseTable []) (Some 0) ''no braces here'' [] =
       \<lparr>AnalysisResult.success = False, data = None,
        error = Some ''No JSON found in cursor-agent output'',
        rawOutput = Some ''no braces here''\<rparr>\<close>
  using analyzeCodebase_extracts_greedy_match
          [of \<open>''noise {"a":1} trailing''\<close>
              \<open>parseTable [(''{"a":1}'', JObject [(''a'', JNumber 1)])]\<close> \<open>[]\<close>]
        analyzeCodebase_extracts_greedy_match [of \<open>''no braces here''\<close> \<open>parseTable []\<close> \<open>[]\<close>]
  by (simp add: jsonMatch_def parseTable_def wrappedResult_def)

text \<open>
  Claim C1 as the specification words it fails: on an output that holds two objects the
  match is not the first balanced object but the text up to the last closing brace, and
  the analyzer reports a parse failure where the first balanced object would parse.
\<close>

theorem first_balanced_object_counterexample:
  \<open>jsonMatch ''{"a":1} and {"b":2}'' = Some ''{"a":1} and {"b":2}''
   \<and> spec_firstBalancedObject ''{"a":1} and {"b":2}'' = Some ''{"a":1}''
   \<and> analyzeCodebase (parseTable [(''{"a":1}'', JObject [(''a'', JNumber 1)])]) (Some 0)
         ''{"a":1} and {"b":2}'' [] =
       \<lparr>AnalysisResult.success = False, data = None,
        error = Some ''Failed to parse cursor-agent output as JSON: Unexpected token'',
        rawOutput = Some ''{"a":1} and {"b":2}''\<rparr>\<close>
  by (simp add: jsonMatch_def spec_firstBalancedObject_def analyzeCodebase_def
        parseTable_def parseFailure_def)

subsection \<open>The wrapper object\<close>

text \<open>
  Claim C2, as the code has it. The wrapper field is the member named \<open>result\<close>. Let
  the output hold an opening brace and, after it, a closing brace, let the text from the
  first opening brace to the last closing brace parse to an object, and let the member
  \<open>result\<close> of that object be a string that again holds an opening brace and a later
  closing brace. Then the text from the first opening brace of that string to its last
  closing brace is parsed, once, and the value it parses to is the analysis data,
  whatever that value is: a value that is a wrapper itself is not unwrapped a second
  time. When that text does not parse the analyzer reports the parse failure. An object
  without a member \<open>result\<close> is the analysis data as it is, whatever its members hold.
\<close>

theorem analyzeCodebase_unwraps_result_once:
  "(stdout = pre @ CHR ''{'' # mid @ CHR ''}'' # post
      \<and> CHR ''{'' \<notin> set pre \<and> CHR ''}'' \<notin> set post
      \<and> JSON_parse (CHR ''{'' # mid @ ''}'') = Inr (JObject members)
      \<and> map_of members ''result'' = Some (JString result)
      \<and> result = pre' @ CHR ''{'' # mid' @ CHR ''}'' # post'
      \<and> CHR ''{'' \<notin> set pre' \<and> CHR ''}'' \<notin> set post' \<longrightarrow>
    analyzeCodebase JSON_parse (Some 0) stdout stderr =
      (case JSON_parse (CHR ''{'' # mid' @ ''}'') of
         Inl message \<Rightarrow>
           \<lparr>AnalysisResult.success = False, data = None,
            error = Some (''Failed to parse cursor-agent output as JSON: '' @ message),
            rawOutput = Some stdout\<rparr>
       | Inr inner \<Rightarrow>
           \<lparr>AnalysisResult.success = True, data = Some inner, error = None,
            rawOutput = Some stdout\<rparr>))
   \<and> (stdout = pre @ CHR ''{'' # mid @ CHR ''}'' # post
      \<and> CHR ''{'' \<notin> set pre \<and> CHR ''}'' \<notin> set post
      \<and> JSON_parse (CHR ''{'' # mid @ ''}'') = Inr (JObject members)
      \<and> map_of members ''result'' = None \<longrightarrow>
    analyzeCodebase JSON_parse (Some 0) stdout stderr =
      \<lparr>AnalysisResult.success = True, data = Some (JObject members), error = None,
       rawOutput = Some stdout\<rparr>)"
proof (intro conjI impI)
  assume a: "stdout = pre @ CHR ''{'' # mid @ CHR ''}'' # post
      \<and> CHR ''{'' \<notin> set pre \<and> CHR ''}'' \<notin> set post
      \<and> JSON_parse (CHR ''{'' # mid @ ''}'') = Inr (JObject members)
      \<and> map_of members ''result'' = Some (JString result)
      \<and> result = pre' @ CHR ''{'' # mid' @ CHR ''}'' # post'
      \<and> CHR ''{'' \<notin> set pre' \<and> CHR ''}'' \<notin> set post'"
  then have outer: "jsonMatch stdout = Some (CHR ''{'' # mid @ ''}'')"
    by (simp add: jsonMatch_decomp)
  from a have inner: "jsonMatch result = Some (CHR ''{'' # mid' @ ''}'')"
    by (simp add: jsonMatch_decomp)
  from a have w: "wrappedResult (JObject members) = Some (JString result)"
    by (simp add: wrappedResult_def)
  from a have p: "JSON_parse (CHR ''{'' # mid @ ''}'') = Inr (JObject members)" by simp
  show "analyzeCodebase JSON_parse (Some 0) stdout stderr =
      (case JSON_parse (CHR ''{'' # mid' @ ''}'') of
         Inl message \<Rightarrow>
           \<lparr>AnalysisResult.success = False, data = None,
            error = Some (''Failed to parse cursor-agent output as JSON: '' @ message),
            rawOutput = Some stdout\<rparr>
       | Inr inner \<Rightarrow>
           \<lparr>AnalysisResult.success = True, data = Some inner, error = None,
            rawOutput = Some stdout\<rparr>)"
    unfolding analyzeCodebase_def
    by (simp add: outer inner w p parseFailure_def analysisSuccess_def split: sum.splits)
next
  assume a: "stdout = pre @ CHR ''{'' # mid @ CHR ''}'' # post
      \<and> CHR ''{'' \<notin> set pre \<and> CHR ''}'' \<notin> set post
      \<and> JSON_parse (CHR ''{'' # mid @ ''}'') = Inr (JObject members)
      \<and> map_of members ''result'' = None"
  then have outer: "jsonMatch stdout = Some (CHR ''{'' # mid @ ''}'')"
    by (simp add: jsonMatch_decomp)
  from a have w: "wrappedResult (JObject members) = None"
    by (simp add: wrappedResult_def)
  from a have p: "JSON_parse (CHR ''{'' # mid @ ''}'') = Inr (JObject members)" by simp
  show "analyzeCodebase JSON_parse (Some 0) stdout stderr =
      \<lparr>AnalysisResult.success = True, data = Some (JObject members), error = None,
       rawOutput = Some stdout\<rparr>"
    unfolding analyzeCodebase_def
    by (simp add: outer w p analysisSuccess_def)
qed

text \<open>
  A payload wrapped twice, with commentary around the output and around the inner text:
  the data returned is the inner wrapper, not the empty object inside it. The second half
  is an object whose only member is not named \<open>result\<close>.
\<close>

theorem analyzeCodebase_unwraps_result_once_witness:
  \<open>analyzeCodebase
     (parseTable
        [(''{"result":'' @ quoteString ''see {"result":"{}"} above'' @ ''}'',
            JObject [(''result'', JString ''see {"result":"{}"} above'')]),
         (''{"result":"{}"}'', JObject [(''result'', JString ''{}'')]),
         (''{}'', JObject [])])
     (Some 0)
     (''noise '' @ ''{"result":'' @ quoteString ''see {"result":"{}"} above'' @ ''}''
        @ '' trailing'') []
   = \<lparr>AnalysisResult.success = True,
      data = Some (JObject [(''result'', JString ''{}'')]),
      error = None,
      rawOutput =
        Some (''noise '' @ ''{"result":'' @ quoteString ''see {"result":"{}"} above'' @ ''}''
              @ '' trailing'')\<rparr>
   \<and> analyzeCodebase
     (parseTable [(''{"data":"{}"}'', JObject [(''data'', JString ''{}'')]),
                  (''{}'', JObject [])])
     (Some 0) ''{"data":"{}"}'' []
   = \<lparr>AnalysisResult.success = True,
      data = Some (JObject [(''data'', JString ''{}'')]),
      error = None, rawOutput = Some ''{"data":"{}"}''\<rparr>\<close>
proof -
  let ?w = \<open>''{"result":'' @ quoteString ''see {"result":"{}"} above'' @ ''}''\<close>
  let ?parse = \<open>parseTable
        [(?w, JObject [(''result'', JString ''see {"result":"{}"} above'')]),
         (''{"result":"{}"}'', JObject [(''result'', JString ''{}'')]),
         (''{}'', JObject [])]\<close>
  let ?parse2 = \<open>parseTable [(''{"data":"{}"}'', JObject [(''data'', JString ''{}'')]),
                             (''{}'', JObject [])]\<close>
  have 1: \<open>analyzeCodebase ?parse (Some 0) (''noise '' @ ?w @ '' trailing'') []
      = \<lparr>AnalysisResult.success = True,
         data = Some (JObject [(''result'', JString ''{}'')]),
         error = None, rawOutput = Some (''noise '' @ ?w @ '' trailing'')\<rparr>\<close>
    using analyzeCodebase_unwraps_result_once
            [of \<open>''noise '' @ ?w @ '' trailing''\<close> \<open>''noise ''\<close>
                \<open>butlast (tl ?w)\<close> \<open>'' trailing''\<close> ?parse
                \<open>[(''result'', JString ''see {"result":"{}"} above'')]\<close>
                \<open>''see {"result":"{}"} above''\<close> \<open>''see ''\<close> \<open>''"result":"{}"''\<close>
                \<open>'' above''\<close> \<open>[]\<close>]
    by (simp add: parseTable_def quoteString_def escapeChar_def)
  have 2: \<open>analyzeCodebase ?parse2 (Some 0) ''{"data":"{}"}'' []
      = \<lparr>AnalysisResult.success = True,
         data = Some (JObject [(''data'', JString ''{}'')]),
         error = None, rawOutput = Some ''{"data":"{}"}''\<rparr>\<close>
    using analyzeCodebase_unwraps_result_once
            [of \<open>''{"data":"{}"}''\<close> \<open>[]\<close> \<open>''"data":"{}"''\<close> \<open>[]\<close> ?parse2
                \<open>[(''data'', JString ''{}'')]\<close>]
    by (simp add: parseTable_def)
  from 1 2 show ?thesis by simp
qed

text \<open>
  Claim C2 as stated fails for a wrapper field of another name: the object has a single
  field, \<open>data\<close>, whose value is a string that holds an object, and the analyzer
  returns the object as it is instead of the empty object the string parses to.
\<close>

theorem other_wrapper_field_counterexample:
  \<open>length [(''data'', JString ''{}'')] = 1
   \<and> jsonMatch ''{}'' = Some ''{}''
   \<and> parseTable [(''{"data":"{}"}'', JObject [(''data'', JString ''{}'')]),
                  (''{}'', JObject [])] ''{}'' = Inr (JObject [])
   \<and> data (analyzeCodebase
         (parseTable [(''{"data":"{}"}'', JObject [(''data'', JString ''{}'')]),
                      (''{}'', JObject [])])
         (Some 0) ''{"data":"{}"}'' [])
       = Some (JObject [(''data'', JString ''{}'')])
   \<and> data (analyzeCodebase
         (parseTable [(''{"data":"{}"}'', JObject [(''data'', JString ''{}'')]),
                      (''{}'', JObject [])])
         (Some 0) ''{"data":"{}"}'' [])
       \<noteq> Some (JObject [])\<close>
  by (simp add: jsonMatch_def parseTable_def analyzeCodebase_def wrappedResult_def
        analysisSuccess_def)

text \<open>
  The example of the specification: the wrapper holds an object whose \<open>codePatterns\<close>
  category has no rules, and the analysis data is that object.
\<close>

lemma analyzeCodebase_unwraps_spec_example:
  \<open>analyzeCodebase
     (parseTable
        [(''{"result":'' @ quoteString ''{"codePatterns":{"title":"X","rules":[]}}'' @ ''}'',
            JObject [(''result'', JString ''{"codePatterns":{"title":"X","rules":[]}}'')]),
         (''{"codePatterns":{"title":"X","rules":[]}}'',
            JObject [(''codePatterns'',
                      JObject [(''title'', JString ''X''), (''rules'', JArray [])])])])
     (Some 0)
     (''{"result":'' @ quoteString ''{"codePatterns":{"title":"X","rules":[]}}'' @ ''}'') []
   = \<lparr>AnalysisResult.success = True,
      data = Some (JObject [(''codePatterns'',
                             JObject [(''title'', JString ''X''), (''rules'', JArray [])])]),
      error = None,
      rawOutput =
        Some (''{"result":'' @ quoteString ''{"codePatterns":{"title":"X","rules":[]}}''
              @ ''}'')\<rparr>\<close>
  by (simp add: analyzeCodebase_def jsonMatch_def parseTable_def wrappedResult_def
        quoteString_def escapeChar_def analysisSuccess_def)

text \<open>
  Claim C10. When the parsed object has a member \<open>result\<close> whose value is a string
  without an opening brace followed by a closing brace, the analyzer returns
  \<open>success: true\<close> with the wrapper object itself as the analysis data.
\<close>

theorem analyzeCodebase_keeps_wrapper_without_braces:
  assumes "jsonMatch stdout = Some jsonText"
    and "JSON_parse jsonText = Inr parsed"
    and "wrappedResult parsed = Some (JString result)"
    and "jsonMatch result = None"
  shows "analyzeCodebase JSON_parse (Some 0) stdout stderr =
           \<lparr>AnalysisResult.success = True, data = Some parsed, error = None,
            rawOutput = Some stdout\<rparr>"
  using assms by (simp add: analyzeCodebase_def analysisSuccess_def)

text \<open>A wrapper whose \<open>result\<close> is plain text.\<close>

theorem analyzeCodebase_keeps_wrapper_without_braces_witness:
  \<open>jsonMatch ''{"result":"plain text"}'' = Some ''{"result":"plain text"}''
   \<and> wrappedResult (JObject [(''result'', JString ''plain text'')])
       = Some (JString ''plain text'')
   \<and> jsonMatch ''plain text'' = None
   \<and> analyzeCodebase
         (parseTable [(''{"result":"plain text"}'',
                       JObject [(''result'', JString ''plain text'')])])
         (Some 0) ''{"result":"plain text"}'' [] =
       \<lparr>AnalysisResult.success = True,
        data = Some (JObject [(''result'', JString ''plain text'')]),
        error = None, rawOutput = Some ''{"result":"plain text"}''\<rparr>\<close>
  using analyzeCodebase_keeps_wrapper_without_braces
          [of \<open>''{"result":"plain text"}''\<close> \<open>''{"result":"plain text"}''\<close>
              \<open>parseTable [(''{"result":"plain text"}'',
                            JObject [(''result'', JString ''plain text'')])]\<close>
              \<open>JObject [(''result'', JString ''plain text'')]\<close>
              \<open>''plain text''\<close> \<open>[]\<close>]
  by (simp add: jsonMatch_def parseTable_def wrappedResult_def)

section \<open>Properties of the rules manager\<close>

subsection \<open>The frontmatter flag\<close>

text \<open>
  Claim C7. The frontmatter of the rendered document has, after the description and
  the optional glob list, the line \<open>alwaysApply: true\<close> or the line
  \<open>alwaysApply: false\<close>. It is the category's \<open>alwaysApply\<close> field that decides when
  the field is defined; otherwise the line says true when \<open>ruleType\<close> is \<open>always\<close>;
  otherwise it says true exactly when the key of the category is \<open>bestPractices\<close> or
  \<open>conventions\<close>.
\<close>

theorem convertToMDC_alwaysApply_priority:
  "convertToMDC categoryName cat =
     ''---\<newline>''
     @ ''description: '' @ orElse (description cat) (title cat) @ ''\<newline>''
     @ (case globs cat of
          None \<Rightarrow> []
        | Some gs \<Rightarrow> if gs \<noteq> [] then ''globs: '' @ JSON_stringify gs @ ''\<newline>'' else [])
     @ (if (case alwaysApply cat of
              Some flag \<Rightarrow> flag
            | None \<Rightarrow>
                if ruleType cat = Some ''always'' then True
                else (categoryName = ''bestPractices'' \<or> categoryName = ''conventions''))
        then ''alwaysApply: true\<newline>''
        else ''alwaysApply: false\<newline>'')
     @ ''---\<newline>\<newline>''
     @ concat (map renderRule (rules cat))"
proof (cases "applyFlag categoryName cat")
  case True
  then have "(case alwaysApply cat of
              Some flag \<Rightarrow> flag
            | None \<Rightarrow>
                if ruleType cat = Some ''always'' then True
                else (categoryName = ''bestPractices'' \<or> categoryName = ''conventions''))"
    by (simp add: applyFlag_def)
  with True show ?thesis by (simp add: convertToMDC_def showBool_def)
next
  case False
  then have "\<not> (case alwaysApply cat of
              Some flag \<Rightarrow> flag
            | None \<Rightarrow>
                if ruleType cat = Some ''always'' then True
                else (categoryName = ''bestPractices'' \<or> categoryName = ''conventions''))"
    by (simp add: applyFlag_def)
  with False show ?thesis by (simp add: convertToMDC_def showBool_def)
qed

text \<open>
  One category for each level of the priority, each with its rendered text: an explicit
  \<open>false\<close> wins over \<open>ruleType\<close> and key, an explicit \<open>true\<close> wins over a key that
  would say false, \<open>always\<close> wins over the key, and the key decides last, for
  \<open>conventions\<close> and against \<open>codePatterns\<close>.
\<close>

theorem convertToMDC_alwaysApply_priority_witness:
  "convertToMDC ''bestPractices''
     \<lparr>title = ''T'', description = None, rules = [], globs = None,
      alwaysApply = Some False, ruleType = Some ''always''\<rparr>
     = ''---\<newline>description: T\<newline>alwaysApply: false\<newline>---\<newline>\<newline>''
   \<and> convertToMDC ''codePatterns''
     \<lparr>title = ''T'', description = None, rules = [], globs = None,
      alwaysApply = Some True, ruleType = Some ''manual''\<rparr>
     = ''---\<newline>description: T\<newline>alwaysApply: true\<newline>---\<newline>\<newline>''
   \<and> convertToMDC ''structure''
     \<lparr>title = ''T'', description = None, rules = [], globs = None,
      alwaysApply = None, ruleType = Some ''always''\<rparr>
     = ''---\<newline>description: T\<newline>alwaysApply: true\<newline>---\<newline>\<newline>''
   \<and> convertToMDC ''conventions''
     \<lparr>title = ''T'', description = None, rules = [], globs = None,
      alwaysApply = None, ruleType = Some ''manual''\<rparr>
     = ''---\<newline>description: T\<newline>alwaysApply: true\<newline>---\<newline>\<newline>''
   \<and> convertToMDC ''codePatterns''
     \<lparr>title = ''T'', description = None, rules = [], globs = Some [''**/*.ts''],
      alwaysApply = None, ruleType = Some ''auto-attached''\<rparr>
     = ''---\<newline>description: T\<newline>globs: ['' @ [CHR 0x22] @ ''**/*.ts'' @ [CHR 0x22]
       @ '']\<newline>alwaysApply: false\<newline>---\<newline>\<newline>''"
  using convertToMDC_alwaysApply_priority
          [of "''bestPractices''"
              "\<lparr>title = ''T'', description = None, rules = [], globs = None,
                alwaysApply = Some False, ruleType = Some ''always''\<rparr>"]
        convertToMDC_alwaysApply_priority
          [of "''codePatterns''"
              "\<lparr>title = ''T'', description = None, rules = [], globs = None,
                alwaysApply = Some True, ruleType = Some ''manual''\<rparr>"]
        convertToMDC_alwaysApply_priority
          [of "''structure''"
              "\<lparr>title = ''T'', description = None, rules = [], globs = None,
                alwaysApply = None, ruleType = Some ''always''\<rparr>"]
        convertToMDC_alwaysApply_priority
          [of "''conventions''"
              "\<lparr>title = ''T'', description = None, rules = [], globs = None,
                alwaysApply = None, ruleType = Some ''manual''\<rparr>"]
        convertToMDC_alwaysApply_priority
          [of "''codePatterns''"
              "\<lparr>title = ''T'', description = None, rules = [], globs = Some [''**/*.ts''],
                alwaysApply = None, ruleType = Some ''auto-attached''\<rparr>"]
  by (simp add: orElse_def JSON_stringify_def quoteString_def escapeChar_def)

section \<open>Properties of the synchronization\<close>

subsection \<open>Skipped entries\<close>

lemma liveEntries_append: "liveEntries (d1 @ d2) = liveEntries d1 @ liveEntries d2"
  by (induction d1 rule: liveEntries.induct) auto

lemma liveEntries_skipped: "skipped c \<Longrightarrow> liveEntries ((k, c) # d) = liveEntries d"
  by (cases c) (auto simp: skipped_def)

lemma liveEntries_skip_middle:
  "skipped c \<Longrightarrow> liveEntries (d1 @ (k, c) # d2) = liveEntries (d1 @ d2)"
  by (simp add: liveEntries_append liveEntries_skipped)

lemma processCategories_skipped:
  "skipped c \<Longrightarrow>
   processCategories dryRun ex ((k, c) # d) result fs = processCategories dryRun ex d result fs"
  by (cases c) (auto simp: skipped_def)

lemma processCategories_skip_middle:
  "skipped c \<Longrightarrow>
   processCategories dryRun ex (d1 @ (k, c) # d2) result fs
     = processCategories dryRun ex (d1 @ d2) result fs"
proof (induction dryRun ex d1 result fs rule: processCategories.induct)
  case (1 dryRun existingRules result fs)
  then show ?case by (simp add: processCategories_skipped)
next
  case (2 dryRun existingRules categoryName rest result fs)
  then show ?case by simp
next
  case (3 dryRun existingRules categoryName cat rest result fs)
  then show ?case
    by (simp add: Let_def split: option.splits sum.splits)
qed

lemma summaryLines_skip_middle:
  "skipped c \<Longrightarrow> summaryLines (d1 @ (k, c) # d2) = summaryLines (d1 @ d2)"
  by (induction d1 rule: summaryLines.induct) (cases c; auto simp: skipped_def)+

lemma createSummary_skip_middle:
  "skipped c \<Longrightarrow> createSummary now (d1 @ (k, c) # d2) = createSummary now (d1 @ d2)"
  by (simp add: createSummary_def summaryLines_skip_middle)

lemma tryWriteRules_skip_middle:
  assumes "skipped c"
  shows "tryWriteRules now (d1 @ (k, c) # d2) fs dryRun = tryWriteRules now (d1 @ d2) fs dryRun"
  unfolding tryWriteRules_def processCategories_skip_middle [OF assms]
    createSummary_skip_middle [OF assms] ..

lemma writeRules_skip_middle:
  "skipped c \<Longrightarrow>
   writeRules now (d1 @ (k, c) # d2) fs dryRun = writeRules now (d1 @ d2) fs dryRun"
  by (simp add: writeRules_def tryWriteRules_skip_middle)

subsection \<open>The outcome of the category loop\<close>

lemma classified_Nil [simp]: "classified ex [] result = result"
  by (simp add: classified_def outcomeNames_def)

lemma classified_None [simp]: "classified ex ((k, None) # d) result = classified ex d result"
  by (simp add: classified_def outcomeNames_def)

lemma classified_empty [simp]:
  "rules cat = [] \<Longrightarrow> classified ex ((k, Some cat) # d) result = classified ex d result"
  by (simp add: classified_def outcomeNames_def)

lemma classified_Created:
  "rules cat \<noteq> [] \<Longrightarrow> classifyOne ex k cat = Created \<Longrightarrow>
   classified ex ((k, Some cat) # d) result
     = classified ex d (result\<lparr>created := created result @ [generateFilename k]\<rparr>)"
  by (simp add: classified_def outcomeNames_def)

lemma classified_Updated:
  "rules cat \<noteq> [] \<Longrightarrow> classifyOne ex k cat = Updated \<Longrightarrow>
   classified ex ((k, Some cat) # d) result
     = classified ex d (result\<lparr>updated := updated result @ [generateFilename k]\<rparr>)"
  by (simp add: classified_def outcomeNames_def)

lemma classified_Unchanged:
  "rules cat \<noteq> [] \<Longrightarrow> classifyOne ex k cat = Unchanged \<Longrightarrow>
   classified ex ((k, Some cat) # d) result
     = classified ex d (result\<lparr>unchanged := unchanged result @ [generateFilename k]\<rparr>)"
  by (simp add: classified_def outcomeNames_def)

lemma processCategories_Inr:
  "processCategories dryRun ex d result fs = (Inr result', fs') \<Longrightarrow>
   result' = classified ex d result"
proof (induction dryRun ex d result fs rule: processCategories.induct)
  case (1 dryRun existingRules result fs)
  then show ?case by simp
next
  case (2 dryRun existingRules categoryName rest result fs)
  then show ?case by simp
next
  case (3 dryRun existingRules categoryName cat rest result fs)
  show ?case
  proof (cases "rules cat = []")
    case True
    with 3 show ?thesis by simp
  next
    case False
    show ?thesis
    proof (cases "classifyOne existingRules categoryName cat")
      case Created
      with False 3 show ?thesis
        by (auto simp: classified_Created classifyOne_def Let_def
              split: option.splits sum.splits if_splits)
    next
      case Updated
      with False 3 show ?thesis
        by (auto simp: classified_Updated classifyOne_def Let_def
              split: option.splits sum.splits if_splits)
    next
      case Unchanged
      with False 3 show ?thesis
        by (auto simp: classified_Unchanged classifyOne_def Let_def
              split: option.splits sum.splits if_splits)
    qed
  qed
qed

lemma processCategories_dry:
  "processCategories True ex d result fs = (Inr (classified ex d result), fs)"
proof (induction "True" ex d result fs rule: processCategories.induct)
  case (1 existingRules result fs)
  then show ?case by simp
next
  case (2 existingRules categoryName rest result fs)
  then show ?case by simp
next
  case (3 existingRules categoryName cat rest result fs)
  show ?case
  proof (cases "rules cat = []")
    case True
    with 3 show ?thesis by simp
  next
    case False
    show ?thesis
    proof (cases "classifyOne existingRules categoryName cat")
      case Created
      with False 3 show ?thesis
        by (auto simp: classified_Created classifyOne_def Let_def writeUnlessDry_def
              split: option.splits sum.splits if_splits)
    next
      case Updated
      with False 3 show ?thesis
        by (auto simp: classified_Updated classifyOne_def Let_def writeUnlessDry_def
              split: option.splits sum.splits if_splits)
    next
      case Unchanged
      with False 3 show ?thesis
        by (auto simp: classified_Unchanged classifyOne_def Let_def writeUnlessDry_def
              split: option.splits sum.splits if_splits)
    qed
  qed
qed


subsection \<open>The names in the result lists\<close>

lemma generateFilename_not_summary: "generateFilename k \<noteq> summaryFilename"
proof
  assume "generateFilename k = summaryFilename"
  then have "last (generateFilename k) = last summaryFilename" by simp
  then show False by (simp add: generateFilename_def summaryFilename_def)
qed

lemma outcomeNames_subset: "set (outcomeNames out ex d) \<subseteq> set (targets d)"
  by (auto simp: outcomeNames_def targets_def)

lemma writeSummary_names:
  "writeSummary dryRun ex summary result fs = (Inr result', fs') \<Longrightarrow>
   set (created result') \<union> set (updated result') \<union> set (unchanged result')
     \<subseteq> insert summaryFilename
         (set (created result) \<union> set (updated result) \<union> set (unchanged result))"
  by (auto simp: writeSummary_def split: if_splits option.splits sum.splits)

lemma classified_names:
  "set (created (classified ex d result)) \<union> set (updated (classified ex d result))
     \<union> set (unchanged (classified ex d result))
   \<subseteq> set (created result) \<union> set (updated result) \<union> set (unchanged result)
       \<union> set (targets d)"
  using outcomeNames_subset [of _ ex d] by (auto simp: classified_def)

lemma writeRules_names:
  "set (created (fst (writeRules now d fs dryRun)))
     \<union> set (updated (fst (writeRules now d fs dryRun)))
     \<union> set (unchanged (fst (writeRules now d fs dryRun)))
   \<subseteq> insert summaryFilename (set (targets d))"
proof (cases "tryWriteRules now d fs dryRun")
  case (Pair outcome fs')
  show ?thesis
  proof (cases outcome)
    case (Inl message)
    with Pair show ?thesis by (simp add: writeRules_def)
  next
    case (Inr result)
    with Pair obtain fs1 ex r2 fs2 fs3 where
      loop: "processCategories dryRun ex d initialResult fs1 = (Inr r2, fs2)" and
      summ: "writeSummary dryRun ex (createSummary now d) r2 fs2 = (Inr result, fs3)"
      by (auto simp: tryWriteRules_def split: sum.splits prod.splits if_splits)
    from loop have "r2 = classified ex d initialResult" by (rule processCategories_Inr)
    then have "set (created r2) \<union> set (updated r2) \<union> set (unchanged r2) \<subseteq> set (targets d)"
      using classified_names [of ex d initialResult] by (simp add: initialResult_def)
    with writeSummary_names [OF summ]
    have "set (created result) \<union> set (updated result) \<union> set (unchanged result)
            \<subseteq> insert summaryFilename (set (targets d))"
      by blast
    with Pair Inr show ?thesis by (simp add: writeRules_def)
  qed
qed

subsection \<open>Empty categories\<close>

text \<open>
  Claim C8, as the code has it. An entry whose category is absent or has no rules is
  skipped entirely: the result of \<open>writeRules\<close> and the directory it leaves are those of
  the same call without the entry, and the summary document is the one written without
  the entry. The file name derived from its key is in none of the result lists, unless a
  live entry of the data derives the same file name.
\<close>

theorem empty_category_is_skipped:
  assumes "skipped c"
  shows "writeRules now (d1 @ (k, c) # d2) fs dryRun = writeRules now (d1 @ d2) fs dryRun
     \<and> createSummary now (d1 @ (k, c) # d2) = createSummary now (d1 @ d2)
     \<and> (generateFilename k \<notin> set (targets (d1 @ d2)) \<longrightarrow>
          generateFilename k \<notin> set (created (fst (writeRules now (d1 @ (k, c) # d2) fs dryRun)))
          \<and> generateFilename k \<notin> set (updated (fst (writeRules now (d1 @ (k, c) # d2) fs dryRun)))
          \<and> generateFilename k
               \<notin> set (unchanged (fst (writeRules now (d1 @ (k, c) # d2) fs dryRun))))"
proof (intro conjI impI)
  show eq: "writeRules now (d1 @ (k, c) # d2) fs dryRun = writeRules now (d1 @ d2) fs dryRun"
    using assms by (rule writeRules_skip_middle)
  show "createSummary now (d1 @ (k, c) # d2) = createSummary now (d1 @ d2)"
    using assms by (rule createSummary_skip_middle)
  assume fresh: "generateFilename k \<notin> set (targets (d1 @ d2))"
  have "generateFilename k \<notin> insert summaryFilename (set (targets (d1 @ d2)))"
    using fresh generateFilename_not_summary by simp
  with writeRules_names [of now "d1 @ d2" fs dryRun]
  have "generateFilename k \<notin> set (created (fst (writeRules now (d1 @ d2) fs dryRun)))
          \<union> set (updated (fst (writeRules now (d1 @ d2) fs dryRun)))
          \<union> set (unchanged (fst (writeRules now (d1 @ d2) fs dryRun)))"
    by blast
  then show "generateFilename k \<notin> set (created (fst (writeRules now (d1 @ (k, c) # d2) fs dryRun)))"
    and "generateFilename k \<notin> set (updated (fst (writeRules now (d1 @ (k, c) # d2) fs dryRun)))"
    and "generateFilename k \<notin> set (unchanged (fst (writeRules now (d1 @ (k, c) # d2) fs dryRun)))"
    by (simp_all add: eq)
qed


text \<open>An empty category next to a live one, written into an empty directory.\<close>

theorem empty_category_is_skipped_witness:
  "skipped (Some (exampleCategory ''Project Structure'' []))
   \<and> generateFilename ''structure''
       \<notin> set (targets [(''frameworks'', Some (exampleCategory ''Frameworks'' [exampleRule]))])
   \<and> fst (writeRules ''2025-11-07T07:33:35.710Z''
             [(''structure'', Some (exampleCategory ''Project Structure'' [])),
              (''frameworks'', Some (exampleCategory ''Frameworks'' [exampleRule]))]
             (directory []) False)
       = \<lparr>success = True, created = [''frameworks.mdc'', ''README.md''], updated = [],
          unchanged = [], error = None\<rparr>"
proof -
  have sk: "skipped (Some (exampleCategory ''Project Structure'' []))"
    by (simp add: skipped_def exampleCategory_def)
  have fresh: "generateFilename ''structure''
       \<notin> set (targets [(''frameworks'', Some (exampleCategory ''Frameworks'' [exampleRule]))])"
    by code_simp
  have run: "fst (writeRules ''2025-11-07T07:33:35.710Z''
             [(''frameworks'', Some (exampleCategory ''Frameworks'' [exampleRule]))]
             (directory []) False)
       = \<lparr>success = True, created = [''frameworks.mdc'', ''README.md''], updated = [],
          unchanged = [], error = None\<rparr>"
    by code_simp
  from empty_category_is_skipped
         [OF sk, of "''2025-11-07T07:33:35.710Z''" "[]" "''structure''"
            "[(''frameworks'', Some (exampleCategory ''Frameworks'' [exampleRule]))]"
            "directory []" False]
    sk fresh run
  show ?thesis by simp
qed

text \<open>
  Claim C8 as stated fails when the key of an empty category derives the file name of a
  live one: the keys \<open>A\<close> and \<open>a\<close> both derive \<open>a.mdc\<close>, and the name is reported as
  created although the category \<open>A\<close> has no rules.
\<close>

theorem empty_category_filename_counterexample:
  "skipped (Some (exampleCategory ''Upper'' []))
   \<and> generateFilename ''A''
       \<in> set (created (fst (writeRules ''2025-11-07T07:33:35.710Z''
             [(''A'', Some (exampleCategory ''Upper'' [])),
              (''a'', Some (exampleCategory ''Lower'' [exampleRule]))]
             (directory []) False)))"
  by code_simp

subsection \<open>The fallback structure\<close>

lemma parseRawOutput_writeRules:
  "writeRules now
     [(''codePatterns'', Some cp),
      (''frameworks'', Some (emptyCategory ''Frameworks & Libraries'')),
      (''structure'', Some (emptyCategory ''Project Structure'')),
      (''conventions'', Some (emptyCategory ''Coding Conventions'')),
      (''bestPractices'', Some (emptyCategory ''Best Practices''))] fs dryRun
   = writeRules now [(''codePatterns'', Some cp)] fs dryRun"
proof -
  have sk: "skipped (Some (emptyCategory t))" for t
    by (simp add: skipped_def emptyCategory_def)
  show ?thesis
    using writeRules_skip_middle [OF sk, of now "[(''codePatterns'', Some cp)]" _ _ "[]"]
      writeRules_skip_middle [OF sk, of now "[(''codePatterns'', Some cp)]" _ _ "[_]"]
      writeRules_skip_middle [OF sk, of now "[(''codePatterns'', Some cp)]" _ _ "[_, _]"]
      writeRules_skip_middle [OF sk, of now "[(''codePatterns'', Some cp)]" _ _ "[_, _, _]"]
    by simp
qed

text \<open>
  Claim C9. \<open>parseRawOutput\<close> returns the five conventional categories in order:
  \<open>codePatterns\<close> holds exactly one rule, whose description is the whole raw text, and
  the other four are present with no rules, so that writing the structure writes the
  \<open>codePatterns\<close> entry alone. When the analysis failed and left a non-empty raw
  output, the orchestrator writes this structure.
\<close>

theorem parseRawOutput_shape:
  "\<exists>codePatterns others.
     parseRawOutput raw = Some ((''codePatterns'', Some codePatterns) # others)
     \<and> rules codePatterns
         = [\<lparr>name = ''Analysis Output'', description = raw, examples = None, category = None\<rparr>]
     \<and> map fst others = [''frameworks'', ''structure'', ''conventions'', ''bestPractices'']
     \<and> list_all (\<lambda>(categoryName, c). c \<noteq> None \<and> skipped c) others
     \<and> writeRules now ((''codePatterns'', Some codePatterns) # others) fs dryRun
         = writeRules now [(''codePatterns'', Some codePatterns)] fs dryRun
     \<and> (raw \<noteq> [] \<and> \<not> AnalysisResult.success analysisResult
          \<and> rawOutput analysisResult = Some raw \<longrightarrow>
         generateRules True analysisResult now fs dryRun
           = writeRules now ((''codePatterns'', Some codePatterns) # others) fs dryRun)"
  by (auto simp: parseRawOutput_def emptyCategory_def skipped_def generateRules_def
        withFallback_def parseRawOutput_writeRules [unfolded emptyCategory_def])

text \<open>A failed analysis that left raw text, written into an empty directory.\<close>

theorem parseRawOutput_shape_witness:
  "fst (generateRules True
          \<lparr>AnalysisResult.success = False, data = None,
           error = Some ''No JSON found in cursor-agent output'',
           rawOutput = Some ''plain text''\<rparr>
          ''2025-11-07T07:33:35.710Z'' (directory []) False)
   = \<lparr>success = True, created = [''codepatterns.mdc'', ''README.md''], updated = [],
      unchanged = [], error = None\<rparr>"
proof -
  let ?ar = "\<lparr>AnalysisResult.success = False, data = None,
           error = Some ''No JSON found in cursor-agent output'',
           rawOutput = Some ''plain text''\<rparr> :: AnalysisData AnalysisResult"
  obtain cp others where
    p: "parseRawOutput ''plain text'' = Some ((''codePatterns'', Some cp) # others)" and
    g: "generateRules True ?ar ''2025-11-07T07:33:35.710Z'' (directory []) False
          = writeRules ''2025-11-07T07:33:35.710Z'' ((''codePatterns'', Some cp) # others)
              (directory []) False"
    using parseRawOutput_shape
            [of "''plain text''" "''2025-11-07T07:33:35.710Z''" "directory []" False ?ar]
    by auto
  have "fst (writeRules ''2025-11-07T07:33:35.710Z'' (the (parseRawOutput ''plain text''))
               (directory []) False)
        = \<lparr>success = True, created = [''codepatterns.mdc'', ''README.md''], updated = [],
           unchanged = [], error = None\<rparr>"
    by code_simp
  with p g show ?thesis by simp
qed

subsection \<open>Failure of a file system operation\<close>


lemma tryWriteRules_success:
  "tryWriteRules now d fs dryRun = (Inr result, fs') \<Longrightarrow>
   success result \<and> error result = None"
proof -
  assume a: "tryWriteRules now d fs dryRun = (Inr result, fs')"
  then obtain fs1 ex r2 fs2 fs3 where
      loop: "processCategories dryRun ex d initialResult fs1 = (Inr r2, fs2)" and
      summ: "writeSummary dryRun ex (createSummary now d) r2 fs2 = (Inr result, fs3)"
    by (auto simp: tryWriteRules_def split: sum.splits prod.splits if_splits)
  from loop have "r2 = classified ex d initialResult" by (rule processCategories_Inr)
  then have "success r2 \<and> error r2 = None" by (simp add: classified_def initialResult_def)
  with summ show ?thesis
    by (auto simp: writeSummary_def split: if_splits option.splits sum.splits)
qed















subsection \<open>The cleanup pass\<close>

lemma removeOld_dry:
  "removeOld True keepLower files fs
     = (Inr (filter (\<lambda>file. toLowerCase file \<notin> set keepLower \<and> hasRuleExtension file) files),
        fs)"
  by (induction files) auto

lemma removeOld_no_faults:
  assumes "\<forall>file. faults fs (Unlink file) = None"
    and "listing fs = Some es"
    and "distinct files"
    and "set files \<subseteq> fst ` set es"
  shows "removeOld False keepLower files fs
     = (Inr (filter (\<lambda>file. toLowerCase file \<notin> set keepLower \<and> hasRuleExtension file) files),
        fs\<lparr>listing := Some (filter (\<lambda>(n, t). n \<notin> set (filter
              (\<lambda>file. toLowerCase file \<notin> set keepLower \<and> hasRuleExtension file) files)) es)\<rparr>)"
  using assms
proof (induction files arbitrary: fs es)
  case Nil
  then show ?case by simp
next
  case (Cons f files)
  let ?st = "\<lambda>file. toLowerCase file \<notin> set keepLower \<and> hasRuleExtension file"
  show ?case
  proof (cases "?st f")
    case False
    then have "removeOld False keepLower (f # files) fs = removeOld False keepLower files fs"
      by auto
    moreover have "filter ?st (f # files) = filter ?st files"
      using False by auto
    ultimately show ?thesis
      using Cons.IH [of fs es] Cons.prems by (simp only: distinct.simps set_subset_Cons
        insert_subset list.set simp_thms)
  next
    case True
    let ?fs' = "fs\<lparr>listing := Some (AList.delete f es)\<rparr>"
    have un: "unlinkSync fs f = Inr ?fs'"
      using Cons.prems by (simp add: unlinkSync_def)
    have sub: "set files \<subseteq> fst ` set (AList.delete f es)"
    proof
      fix x assume x: "x \<in> set files"
      with Cons.prems have "x \<noteq> f" and "x \<in> fst ` set es" by auto
      then show "x \<in> fst ` set (AList.delete f es)"
        by (force simp: AList.delete_eq)
    qed
    have ih: "removeOld False keepLower files ?fs'
       = (Inr (filter ?st files),
          ?fs'\<lparr>listing := Some (filter (\<lambda>(n, t). n \<notin> set (filter ?st files))
                                  (AList.delete f es))\<rparr>)"
      using Cons.IH [of ?fs' "AList.delete f es"] Cons.prems sub by simp
    have flt: "filter (\<lambda>(n, t). n \<notin> set (filter ?st files)) (AList.delete f es)
                 = filter (\<lambda>(n, t). n \<notin> set (filter ?st (f # files))) es"
      using True by (auto simp: AList.delete_eq intro: filter_cong)
    show ?thesis
      using True un ih flt by simp
  qed
qed

lemma filter_not_in_filter_names:
  "filter (\<lambda>(n, t). n \<notin> set (filter P (map fst es))) es = filter (\<lambda>(n, t). \<not> P n) es"
  by (rule filter_cong) (auto simp: image_iff)

lemma cleanupOldRules_no_faults:
  assumes "listing fs = Some es"
    and "distinct (map fst es)"
    and "faults fs Readdir = None"
    and "\<forall>file. faults fs (Unlink file) = None"
  shows "cleanupOldRules fs keepFiles False
     = (Inr (filter (stale keepFiles) (map fst es)),
        fs\<lparr>listing := Some (filter (\<lambda>(n, t). \<not> stale keepFiles n) es)\<rparr>)"
proof -
  have "removeOld False (map toLowerCase keepFiles) (map fst es) fs
     = (Inr (filter (stale keepFiles) (map fst es)),
        fs\<lparr>listing := Some (filter (\<lambda>(n, t). n \<notin> set (filter (stale keepFiles) (map fst es))) es)\<rparr>)"
    using removeOld_no_faults [OF assms(4) assms(1) assms(2), of "map toLowerCase keepFiles"]
    unfolding stale_def by simp
  then have "removeOld False (map toLowerCase keepFiles) (map fst es) fs
     = (Inr (filter (stale keepFiles) (map fst es)),
        fs\<lparr>listing := Some (filter (\<lambda>(n, t). \<not> stale keepFiles n) es)\<rparr>)"
    by (simp only: filter_not_in_filter_names)
  then show ?thesis
    using assms(1,3)
    by (simp add: cleanupOldRules_def existsSync_def readdirSync_def)
qed

lemma stale_kept: "file \<in> set keepFiles \<Longrightarrow> \<not> stale keepFiles file"
  by (auto simp: stale_def)

text \<open>
  Claim C4, as the code has it. In a directory that can be listed and whose files can be
  removed, with ASCII names in the directory and in the keep list, the cleanup pass
  removes exactly the stale files, and returns their names: a file is stale when its name
  ends in \<open>.mdc\<close>, \<open>.md\<close> or \<open>.txt\<close> and, put in lower case, is not the lower-case
  form of a name in the keep list. When the keep list holds exactly the files of the
  directory that end in one of the three extensions, nothing is removed.
\<close>

theorem cleanupOldRules_removes_stale:
  assumes "listing fs = Some es"
    and "distinct (map fst es)"
    and "faults fs Readdir = None"
    and "\<forall>file. faults fs (Unlink file) = None"
    and "asciiNames (map fst es @ keepFiles)"
  shows "cleanupOldRules fs keepFiles False
           = (Inr (filter (stale keepFiles) (map fst es)),
              fs\<lparr>listing := Some (filter (\<lambda>(n, t). \<not> stale keepFiles n) es)\<rparr>)
     \<and> (\<forall>file \<in> fst ` set es. stale keepFiles file
           = (hasRuleExtension file \<and> toLowerCase file \<notin> toLowerCase ` set keepFiles))
     \<and> (set keepFiles = {file \<in> fst ` set es. hasRuleExtension file} \<longrightarrow>
          cleanupOldRules fs keepFiles False = (Inr [], fs))"
proof (intro conjI impI ballI)
  show c: "cleanupOldRules fs keepFiles False
           = (Inr (filter (stale keepFiles) (map fst es)),
              fs\<lparr>listing := Some (filter (\<lambda>(n, t). \<not> stale keepFiles n) es)\<rparr>)"
    using assms(1-4) by (rule cleanupOldRules_no_faults)
  show "stale keepFiles f
           = (hasRuleExtension f \<and> toLowerCase f \<notin> toLowerCase ` set keepFiles)" for f
    by (auto simp: stale_def)
  assume keep: "set keepFiles = {file \<in> fst ` set es. hasRuleExtension file}"
  have none: "\<not> stale keepFiles n" if "(n, t) \<in> set es" for n t
  proof (cases "hasRuleExtension n")
    case True
    with that keep have "n \<in> set keepFiles" by force
    then show ?thesis by (rule stale_kept)
  next
    case False
    then show ?thesis by (simp add: stale_def)
  qed
  have "filter (stale keepFiles) (map fst es) = []"
    using none by (auto simp: filter_empty_conv)
  moreover have "filter (\<lambda>(n, t). \<not> stale keepFiles n) es = es"
    using none by (auto simp: filter_id_conv)
  ultimately show "cleanupOldRules fs keepFiles False = (Inr [], fs)"
    using c assms(1) by simp
qed


text \<open>
  A directory with one stale rule file, a rule file whose name differs in letter case
  from a name of the keep list, and one file of another extension; then the same
  directory with every rule file in the keep list.
\<close>

theorem cleanupOldRules_removes_stale_witness:
  "cleanupOldRules
     (directory [(''old.mdc'', ''x''), (''Frameworks.mdc'', ''y''), (''notes.json'', ''z''),
                 (''README.md'', ''r'')])
     [''frameworks.mdc'', ''README.md''] False
   = (Inr [''old.mdc''],
      directory [(''Frameworks.mdc'', ''y''), (''notes.json'', ''z''), (''README.md'', ''r'')])
   \<and> cleanupOldRules
     (directory [(''old.mdc'', ''x''), (''Frameworks.mdc'', ''y''), (''notes.json'', ''z''),
                 (''README.md'', ''r'')])
     [''old.mdc'', ''Frameworks.mdc'', ''README.md''] False
   = (Inr [],
      directory [(''old.mdc'', ''x''), (''Frameworks.mdc'', ''y''), (''notes.json'', ''z''),
                 (''README.md'', ''r'')])"
proof -
  let ?es = "[(''old.mdc'', ''x''), (''Frameworks.mdc'', ''y''), (''notes.json'', ''z''),
              (''README.md'', ''r'')]"
  have l: "listing (directory ?es) = Some ?es"
    and d: "distinct (map fst ?es)"
    and r: "faults (directory ?es) Readdir = None"
    and u: "\<forall>f. faults (directory ?es) (Unlink f) = None"
    by (simp_all add: directory_def)
  have a1: "asciiNames (map fst ?es @ [''frameworks.mdc'', ''README.md''])"
    and a2: "asciiNames (map fst ?es @ [''old.mdc'', ''Frameworks.mdc'', ''README.md''])"
    by code_simp+
  have s1: "filter (stale [''frameworks.mdc'', ''README.md'']) (map fst ?es) = [''old.mdc'']"
    by code_simp
  have s2: "filter (\<lambda>(n, t). \<not> stale [''frameworks.mdc'', ''README.md''] n) ?es
              = [(''Frameworks.mdc'', ''y''), (''notes.json'', ''z''), (''README.md'', ''r'')]"
    by code_simp
  have ext: "hasRuleExtension ''old.mdc''" "hasRuleExtension ''Frameworks.mdc''"
    "\<not> hasRuleExtension ''notes.json''" "hasRuleExtension ''README.md''"
    by code_simp+
  have k: "set [''old.mdc'', ''Frameworks.mdc'', ''README.md'']
             = {f \<in> fst ` set ?es. hasRuleExtension f}"
    using ext by auto
  have a: "cleanupOldRules (directory ?es) [''frameworks.mdc'', ''README.md''] False
      = (Inr (filter (stale [''frameworks.mdc'', ''README.md'']) (map fst ?es)),
         (directory ?es)\<lparr>listing :=
            Some (filter (\<lambda>(n, t). \<not> stale [''frameworks.mdc'', ''README.md''] n) ?es)\<rparr>)"
    using cleanupOldRules_removes_stale
            [OF l d r u a1]
    by blast
  have b: "cleanupOldRules (directory ?es) [''old.mdc'', ''Frameworks.mdc'', ''README.md''] False
      = (Inr [], directory ?es)"
    using cleanupOldRules_removes_stale [OF l d r u a2] k
    by blast
  have "cleanupOldRules (directory ?es) [''frameworks.mdc'', ''README.md''] False
      = (Inr [''old.mdc''],
         directory [(''Frameworks.mdc'', ''y''), (''notes.json'', ''z''), (''README.md'', ''r'')])"
    unfolding a s1 s2 by (simp add: directory_def)
  with b show ?thesis by blast
qed

text \<open>
  Claim C4 as stated fails on names that differ in letter case: \<open>Old.md\<close> has a
  recognized extension and is not a name of the keep list, and it is not removed.
\<close>

theorem cleanup_keeps_case_variant_counterexample:
  "hasRuleExtension ''Old.md''
   \<and> ''Old.md'' \<notin> set [''old.md'']
   \<and> fst (cleanupOldRules (directory [(''Old.md'', ''x'')]) [''old.md''] False) = Inr []
   \<and> listing (snd (cleanupOldRules (directory [(''Old.md'', ''x'')]) [''old.md''] False))
       = Some [(''Old.md'', ''x'')]"
  by code_simp

subsection \<open>Dry runs\<close>

lemma writeSummary_dry_state: "snd (writeSummary True ex summary result fs) = fs"
  by (simp add: writeSummary_def writeUnlessDry_def split: option.splits)

lemma writeSummary_dry_result:
  "writeSummary dryRun ex summary result fs = (Inr result', fs') \<Longrightarrow>
   writeSummary True ex summary result fs0 = (Inr result', fs0)"
  by (auto simp: writeSummary_def writeUnlessDry_def split: option.splits if_splits sum.splits)

lemma cleanupOldRules_dry_state: "snd (cleanupOldRules fs keepFiles True) = fs"
  by (simp add: cleanupOldRules_def removeOld_dry split: sum.splits)

lemma tryWriteRules_dry_state: "snd (tryWriteRules now d fs True) = fs"
proof (cases "readExistingRules fs")
  case (Inl e)
  then show ?thesis by (simp add: tryWriteRules_def)
next
  case (Inr ex)
  obtain o3 fs3 where s: "writeSummary True ex (createSummary now d)
                            (classified ex d initialResult) fs = (o3, fs3)"
    by (cases "writeSummary True ex (createSummary now d) (classified ex d initialResult) fs")
  with writeSummary_dry_state [of ex "createSummary now d" "classified ex d initialResult" fs]
  have fs3: "fs3 = fs" by simp
  show ?thesis
  proof (cases o3)
    case (Inl e)
    with Inr s fs3 show ?thesis by (simp add: tryWriteRules_def processCategories_dry)
  next
    case r3: (Inr result')
    obtain o4 fs4 where c: "cleanupOldRules fs
          (created result' @ updated result' @ unchanged result') True = (o4, fs4)"
      by (cases "cleanupOldRules fs (created result' @ updated result' @ unchanged result') True")
    with cleanupOldRules_dry_state
           [of fs "created result' @ updated result' @ unchanged result'"]
    have "fs4 = fs" by simp
    with Inr s fs3 r3 c show ?thesis
      by (cases o4) (simp_all add: tryWriteRules_def processCategories_dry)
  qed
qed

lemma writeRules_dry_state: "snd (writeRules now d fs True) = fs"
  using tryWriteRules_dry_state [of now d fs]
  by (cases "tryWriteRules now d fs True") (auto simp: writeRules_def split: sum.splits)

lemma readExistingRules_after_ensure:
  assumes "ensureRulesDirectory fs = Inr fs1" and "readExistingRules fs1 = Inr ex"
  shows "readExistingRules fs = Inr ex"
proof (cases "existsSync fs")
  case True
  with assms show ?thesis by (simp add: ensureRulesDirectory_def)
next
  case False
  with assms(1) have "fs1 = fs\<lparr>listing := Some []\<rparr>"
    by (auto simp: ensureRulesDirectory_def mkdirSync_def existsSync_def split: option.splits)
  with assms(2) have "ex = []"
    by (auto simp: readExistingRules_def existsSync_def readdirSync_def split: option.splits)
  with False show ?thesis by (simp add: readExistingRules_def)
qed

lemma cleanupOldRules_dry_succeeds:
  assumes "readExistingRules fs = Inr ex"
  shows "\<exists>removed. cleanupOldRules fs keepFiles True = (Inr removed, fs)"
proof (cases "existsSync fs")
  case False
  then show ?thesis by (simp add: cleanupOldRules_def)
next
  case True
  with assms obtain files where "readdirSync fs = Inr files"
    by (auto simp: readExistingRules_def split: sum.splits)
  with True show ?thesis by (simp add: cleanupOldRules_def removeOld_dry)
qed

lemma tryWriteRules_dry_result:
  assumes "tryWriteRules now d fs False = (Inr result, fs')"
  shows "tryWriteRules now d fs True = (Inr result, fs)"
proof -
  from assms obtain fs1 ex r2 fs2 fs3 where
    en: "ensureRulesDirectory fs = Inr fs1" and
    rd: "readExistingRules fs1 = Inr ex" and
    loop: "processCategories False ex d initialResult fs1 = (Inr r2, fs2)" and
    summ: "writeSummary False ex (createSummary now d) r2 fs2 = (Inr result, fs3)"
    by (auto simp: tryWriteRules_def split: sum.splits prod.splits)
  have rd': "readExistingRules fs = Inr ex"
    using en rd by (rule readExistingRules_after_ensure)
  have r2: "r2 = classified ex d initialResult"
    using loop by (rule processCategories_Inr)
  have summ': "writeSummary True ex (createSummary now d) (classified ex d initialResult) fs
                 = (Inr result, fs)"
    using summ r2 by (auto dest: writeSummary_dry_result)
  obtain removed where "cleanupOldRules fs
      (created result @ updated result @ unchanged result) True = (Inr removed, fs)"
    using cleanupOldRules_dry_succeeds [OF rd'] by blast
  with rd' summ' show ?thesis
    by (simp add: tryWriteRules_def processCategories_dry)
qed

text \<open>
  Claim C5, as the code has it. A dry run leaves the directory exactly as it was.
  Whenever the run that writes succeeds on the same directory, the dry run returns the
  same result, list for list; and whenever the dry run fails, the run that writes fails
  in the same way and leaves the directory as it was. So the two results differ only where
  the dry run succeeds and the run that writes raises.
\<close>

lemma writeSummary_dry_succeeds:
  "\<exists>result'. writeSummary True ex summary result fs = (Inr result', fs)"
  by (simp add: writeSummary_def writeUnlessDry_def split: option.splits)

lemma tryWriteRules_dry_failure:
  assumes "tryWriteRules now d fs True = (Inl m, fs')"
  shows "readExistingRules fs = Inl m"
proof (cases "readExistingRules fs")
  case (Inl e)
  with assms show ?thesis by (simp add: tryWriteRules_def)
next
  case (Inr ex)
  obtain r3 where s: "writeSummary True ex (createSummary now d)
                        (classified ex d initialResult) fs = (Inr r3, fs)"
    using writeSummary_dry_succeeds by blast
  obtain removed where "cleanupOldRules fs (created r3 @ updated r3 @ unchanged r3) True
                          = (Inr removed, fs)"
    using cleanupOldRules_dry_succeeds [OF Inr] by blast
  with Inr s have "tryWriteRules now d fs True = (Inr r3, fs)"
    by (simp add: tryWriteRules_def processCategories_dry)
  with assms show ?thesis by simp
qed

lemma writeRules_dry_failure:
  assumes "\<not> success (fst (writeRules now d fs True))"
  shows "writeRules now d fs False = writeRules now d fs True"
proof -
  obtain outcome fs' where t: "tryWriteRules now d fs True = (outcome, fs')"
    by (cases "tryWriteRules now d fs True")
  have "\<exists>m. outcome = Inl m"
  proof (cases outcome)
    case (Inl m)
    then show ?thesis by blast
  next
    case (Inr result)
    with t tryWriteRules_success [of now d fs True result fs'] assms
    show ?thesis by (simp add: writeRules_def)
  qed
  then obtain m where o: "outcome = Inl m" by blast
  from t o have rd: "readExistingRules fs = Inl m" by (simp add: tryWriteRules_dry_failure)
  then have ex: "existsSync fs" by (auto simp: readExistingRules_def split: if_splits)
  then have en: "ensureRulesDirectory fs = Inr fs" by (simp add: ensureRulesDirectory_def)
  from rd have "tryWriteRules now d fs True = (Inl m, fs)" by (simp add: tryWriteRules_def)
  moreover from rd en have "tryWriteRules now d fs False = (Inl m, fs)"
    by (simp add: tryWriteRules_def)
  ultimately show ?thesis by (simp add: writeRules_def)
qed

theorem dry_run_leaves_directory_and_reports_same:
  "snd (writeRules now d fs True) = fs
   \<and> (success (fst (writeRules now d fs False)) \<longrightarrow>
        fst (writeRules now d fs True) = fst (writeRules now d fs False))
   \<and> (\<not> success (fst (writeRules now d fs True)) \<longrightarrow>
        writeRules now d fs False = writeRules now d fs True)"
proof (intro conjI impI)
  show "snd (writeRules now d fs True) = fs" by (rule writeRules_dry_state)
  show "writeRules now d fs False = writeRules now d fs True"
    if "\<not> success (fst (writeRules now d fs True))"
    using that by (rule writeRules_dry_failure)
  assume ok: "success (fst (writeRules now d fs False))"
  obtain outcome fs' where t: "tryWriteRules now d fs False = (outcome, fs')"
    by (cases "tryWriteRules now d fs False")
  with ok obtain result where o: "outcome = Inr result"
    by (cases outcome) (auto simp: writeRules_def)
  from t o have "tryWriteRules now d fs True = (Inr result, fs)"
    by (simp add: tryWriteRules_dry_result)
  with t o show "fst (writeRules now d fs True) = fst (writeRules now d fs False)"
    by (simp add: writeRules_def)
qed


text \<open>
  A directory with one stale file, where the run that writes succeeds; and a directory
  that cannot be listed, where the dry run fails and the run that writes fails with it.
\<close>

theorem dry_run_leaves_directory_and_reports_same_witness:
  "success (fst (writeRules ''2025-11-07T07:33:35.710Z''
       [(''frameworks'', Some (exampleCategory ''Frameworks'' [exampleRule]))]
       (directory [(''old.mdc'', ''x'')]) False))
   \<and> snd (writeRules ''2025-11-07T07:33:35.710Z''
       [(''frameworks'', Some (exampleCategory ''Frameworks'' [exampleRule]))]
       (directory [(''old.mdc'', ''x'')]) True)
     = directory [(''old.mdc'', ''x'')]
   \<and> fst (writeRules ''2025-11-07T07:33:35.710Z''
       [(''frameworks'', Some (exampleCategory ''Frameworks'' [exampleRule]))]
       (directory [(''old.mdc'', ''x'')]) True)
     = \<lparr>success = True, created = [''frameworks.mdc'', ''README.md''], updated = [],
        unchanged = [], error = None\<rparr>
   \<and> \<not> success (fst (writeRules ''2025-11-07T07:33:35.710Z''
       [(''frameworks'', Some (exampleCategory ''Frameworks'' [exampleRule]))]
       (faultyDirectory (Some [(''old.mdc'', ''x'')]) Readdir ''EACCES: permission denied'')
       True))
   \<and> fst (writeRules ''2025-11-07T07:33:35.710Z''
       [(''frameworks'', Some (exampleCategory ''Frameworks'' [exampleRule]))]
       (faultyDirectory (Some [(''old.mdc'', ''x'')]) Readdir ''EACCES: permission denied'')
       False)
     = \<lparr>success = False, created = [], updated = [], unchanged = [],
        error = Some ''EACCES: permission denied''\<rparr>"
proof -
  have run: "fst (writeRules ''2025-11-07T07:33:35.710Z''
       [(''frameworks'', Some (exampleCategory ''Frameworks'' [exampleRule]))]
       (directory [(''old.mdc'', ''x'')]) False)
     = \<lparr>success = True, created = [''frameworks.mdc'', ''README.md''], updated = [],
        unchanged = [], error = None\<rparr>"
    by code_simp
  have dry: "fst (writeRules ''2025-11-07T07:33:35.710Z''
       [(''frameworks'', Some (exampleCategory ''Frameworks'' [exampleRule]))]
       (faultyDirectory (Some [(''old.mdc'', ''x'')]) Readdir ''EACCES: permission denied'')
       True)
     = \<lparr>success = False, created = [], updated = [], unchanged = [],
        error = Some ''EACCES: permission denied''\<rparr>"
    by code_simp
  from dry_run_leaves_directory_and_reports_same
         [of "''2025-11-07T07:33:35.710Z''"
             "[(''frameworks'', Some (exampleCategory ''Frameworks'' [exampleRule]))]"
             "directory [(''old.mdc'', ''x'')]"]
       dry_run_leaves_directory_and_reports_same
         [of "''2025-11-07T07:33:35.710Z''"
             "[(''frameworks'', Some (exampleCategory ''Frameworks'' [exampleRule]))]"
             "faultyDirectory (Some [(''old.mdc'', ''x'')]) Readdir
                ''EACCES: permission denied''"]
    run dry
  show ?thesis by simp
qed

text \<open>
  Claim C5 as stated fails where the run that writes raises: with a read-only
  \<open>a.mdc\<close> the dry run reports the file as updated, and the run that writes returns
  empty lists.
\<close>

theorem dry_run_lists_differ_counterexample:
  "fst (writeRules ''2025-11-07T07:33:35.710Z''
       [(''a'', Some (exampleCategory ''A'' [exampleRule]))]
       (readOnlyDirectory [(''a.mdc'', ''old'')] ''a.mdc'') True)
     = \<lparr>success = True, created = [''README.md''], updated = [''a.mdc''],
        unchanged = [], error = None\<rparr>
   \<and> fst (writeRules ''2025-11-07T07:33:35.710Z''
       [(''a'', Some (exampleCategory ''A'' [exampleRule]))]
       (readOnlyDirectory [(''a.mdc'', ''old'')] ''a.mdc'') False)
     = \<lparr>success = False, created = [], updated = [], unchanged = [],
        error = Some ''EACCES: permission denied''\<rparr>"
  by code_simp

subsection \<open>File names and normalized text\<close>

lemma lowerChar_idem: "lowerChar (lowerChar c) = lowerChar c"
  by (simp add: lowerChar_def)

lemma replaceSpaceRuns_set: "set (replaceSpaceRuns r s) \<subseteq> set r \<union> set s"
proof (induction r s rule: replaceSpaceRuns.induct)
  case (1 r)
  then show ?case by simp
next
  case (2 r c cs)
  then show ?case
    using set_dropWhileD [of _ isSpace cs] by (auto split: if_splits)
qed

lemma generateFilename_lower: "toLowerCase (generateFilename k) = generateFilename k"
proof -
  have "lowerChar c = c" if "c \<in> set (replaceSpaceRuns ''-'' (toLowerCase k))" for c
  proof -
    from that replaceSpaceRuns_set [of "''-''" "toLowerCase k"]
    have "c = CHR ''-'' \<or> c \<in> set (toLowerCase k)" by auto
    then show ?thesis
      by (auto simp: toLowerCase_def lowerChar_idem) (simp add: lowerChar_def)
  qed
  then have "map lowerChar (replaceSpaceRuns ''-'' (toLowerCase k))
               = replaceSpaceRuns ''-'' (toLowerCase k)"
    by (simp add: map_idI)
  moreover have "map lowerChar ''.mdc'' = ''.mdc''" by (simp add: lowerChar_def)
  ultimately show ?thesis by (simp add: generateFilename_def toLowerCase_def)
qed

lemma generateFilename_hasRuleExtension: "hasRuleExtension (generateFilename k)"
  by (simp add: hasRuleExtension_def endsWith_def generateFilename_def)

lemma summaryFilename_hasRuleExtension: "hasRuleExtension summaryFilename"
  by (simp add: hasRuleExtension_def endsWith_def summaryFilename_def)

lemma generateFilename_lower_not_summary:
  "toLowerCase (generateFilename k) \<noteq> toLowerCase summaryFilename"
proof
  assume "toLowerCase (generateFilename k) = toLowerCase summaryFilename"
  then have "last (generateFilename k) = last (toLowerCase summaryFilename)"
    by (simp add: generateFilename_lower)
  then show False
    by (simp add: generateFilename_def summaryFilename_def toLowerCase_def lowerChar_def)
qed

lemma needsUpdate_refl: "\<not> needsUpdate t t"
  by (simp add: needsUpdate_def)


lemma dropWhile_append_nonspace:
  "b = [] \<or> \<not> isSpace (hd b) \<Longrightarrow> dropWhile isSpace (a @ b) = dropWhile isSpace a @ b"
  by (induction a) (cases b; auto)+

lemma replaceSpaceRuns_append:
  "b = [] \<or> \<not> isSpace (hd b) \<Longrightarrow>
   replaceSpaceRuns r (a @ b) = replaceSpaceRuns r a @ replaceSpaceRuns r b"
proof (induction r a rule: replaceSpaceRuns.induct)
  case (1 r)
  then show ?case by simp
next
  case (2 r c cs)
  then show ?case by (simp add: dropWhile_append_nonspace)
qed

lemma replaceSpaceRuns_nonspace:
  "\<forall>c \<in> set t. \<not> isSpace c \<Longrightarrow> replaceSpaceRuns r (t @ b) = t @ replaceSpaceRuns r b"
  by (induction t) auto

lemma trim_bracket:
  assumes "\<not> isSpace a" and "\<not> isSpace z" and "\<forall>c \<in> set ws. isSpace c"
  shows "trim (a # m @ z # ws) = a # m @ [z]"
proof -
  have "dropWhile isSpace (rev ws @ z # rev m @ [a]) = z # rev m @ [a]"
    using assms by (simp add: dropWhile_append3 dropWhile_append2)
  then show ?thesis using assms by (simp add: trim_def)
qed

lemma normalize_bracket:
  assumes "\<not> isSpace a" and "timestampLike now"
  shows "normalize ((a # P) @ now @ ''\<newline>Generator: agent-rule-sync\<newline>'')
           = replaceSpaceRuns '' '' (a # P) @ now @ '' Generator: agent-rule-sync''"
proof -
  have e: "(a # P) @ now @ ''\<newline>Generator: agent-rule-sync\<newline>''
             = a # (P @ now @ ''\<newline>Generator: agent-rule-syn'') @ CHR ''c'' # ''\<newline>''"
    by simp
  have c: "\<not> isSpace (CHR ''c'')" and n: "\<forall>x \<in> set ''\<newline>''. isSpace x"
    by (simp_all add: isSpace_def)
  have "trim ((a # P) @ now @ ''\<newline>Generator: agent-rule-sync\<newline>'')
          = a # (P @ now @ ''\<newline>Generator: agent-rule-syn'') @ [CHR ''c'']"
    unfolding e using assms(1) c n by (rule trim_bracket)
  then have t: "trim ((a # P) @ now @ ''\<newline>Generator: agent-rule-sync\<newline>'')
                  = (a # P) @ (now @ ''\<newline>Generator: agent-rule-sync'')"
    by simp
  have ns: "\<forall>c \<in> set now. \<not> isSpace c" and ne: "now \<noteq> []"
    using assms(2) by (simp_all add: timestampLike_def)
  have hd: "\<not> isSpace (hd (now @ ''\<newline>Generator: agent-rule-sync''))"
    using ns ne by (cases now) auto
  have "replaceSpaceRuns '' '' ((a # P) @ (now @ ''\<newline>Generator: agent-rule-sync''))
          = replaceSpaceRuns '' '' (a # P)
            @ replaceSpaceRuns '' '' (now @ ''\<newline>Generator: agent-rule-sync'')"
    using hd by (intro replaceSpaceRuns_append) simp
  also have "replaceSpaceRuns '' '' (now @ ''\<newline>Generator: agent-rule-sync'')
               = now @ replaceSpaceRuns '' '' ''\<newline>Generator: agent-rule-sync''"
    using ns by (rule replaceSpaceRuns_nonspace)
  also have "replaceSpaceRuns '' '' ''\<newline>Generator: agent-rule-sync''
               = '' Generator: agent-rule-sync''"
    by (simp add: isSpace_def)
  finally show ?thesis unfolding normalize_def t by simp
qed

lemma createSummary_bracket:
  "\<exists>P. \<forall>now. createSummary now d
           = (CHR ''#'' # P) @ now @ ''\<newline>Generator: agent-rule-sync\<newline>''"
  by (rule exI [of _ "'' Cursor Rules - Auto Generated\<newline>\<newline>''
        @ ''This directory contains automatically generated rules for this codebase.\<newline>\<newline>''
        @ ''## Rule Categories\<newline>\<newline>''
        @ summaryLines d
        @ ''\<newline>---\<newline>\<newline>''
        @ ''Generated on: ''"])
     (simp add: createSummary_def)

lemma normalize_createSummary_inj:
  assumes "timestampLike now1" and "timestampLike now2" and "now1 \<noteq> now2"
  shows "normalize (createSummary now1 d) \<noteq> normalize (createSummary now2 d)"
proof -
  obtain P where P: "\<And>now. createSummary now d
      = (CHR ''#'' # P) @ now @ ''\<newline>Generator: agent-rule-sync\<newline>''"
    using createSummary_bracket [of d] by blast
  have h: "\<not> isSpace (CHR ''#'')" by (simp add: isSpace_def)
  show ?thesis
    unfolding P normalize_bracket [OF h assms(1)] normalize_bracket [OF h assms(2)]
    using assms(3) by simp
qed

subsection \<open>A directory without faults\<close>

lemma readFiles_no_faults:
  assumes "noFaults fs" and "listing fs = Some es" and "distinct (map fst es)"
    and "set es' \<subseteq> set es"
  shows "readFiles fs (map fst es') = Inr (snapshot es')"
  using assms(4)
proof (induction es')
  case Nil
  then show ?case by (simp add: snapshot_def)
next
  case (Cons e es')
  obtain n t where e: "e = (n, t)" by (cases e)
  with Cons.prems have "(n, t) \<in> set es" by simp
  with assms(3) have "map_of es n = Some t" by simp
  with assms(1,2) have rd: "readFileSync fs n = Inr t"
    by (simp add: readFileSync_def noFaults_def)
  from Cons have ih: "readFiles fs (map fst es') = Inr (snapshot es')" by simp
  show ?case using e rd ih by (simp add: snapshot_def)
qed

lemma readExistingRules_no_faults:
  assumes "noFaults fs" and "listing fs = Some es" and "distinct (map fst es)"
  shows "readExistingRules fs = Inr (snapshot es)"
  using assms readFiles_no_faults [OF assms, of es]
  by (simp add: readExistingRules_def existsSync_def readdirSync_def noFaults_def)

lemma writeFileSync_no_faults:
  "noFaults fs \<Longrightarrow> listing fs = Some es \<Longrightarrow>
   writeFileSync fs f t = Inr (fs\<lparr>listing := Some (AList.update f t es)\<rparr>)"
  by (simp add: writeFileSync_def noFaults_def)

lemma processCategories_no_faults:
  "noFaults fs \<Longrightarrow> listing fs = Some es \<Longrightarrow>
   processCategories False ex d result fs
     = (Inr (classified ex d result), fs\<lparr>listing := Some (loopListing ex d es)\<rparr>)"
proof (induction d arbitrary: result fs es)
  case Nil
  then show ?case by simp
next
  case (Cons e d)
  obtain k c where e: "e = (k, c)" by (cases e)
  show ?case
  proof (cases c)
    case None
    with e Cons show ?thesis by simp
  next
    case (Some cat)
    show ?thesis
    proof (cases "rules cat = []")
      case True
      with e Some Cons show ?thesis by simp
    next
      case False
      let ?f = "generateFilename k" and ?m = "convertToMDC k cat"
      let ?fs' = "fs\<lparr>listing := Some (AList.update ?f ?m es)\<rparr>"
      have w: "writeUnlessDry False fs ?f ?m = Inr ?fs'"
        using Cons.prems by (simp add: writeUnlessDry_def writeFileSync_no_faults)
      have nf: "noFaults ?fs'" and l: "listing ?fs' = Some (AList.update ?f ?m es)"
        using Cons.prems by (simp_all add: noFaults_def)
      note ih' = Cons.IH [OF nf l]
      note ih = Cons.IH [OF Cons.prems]
      show ?thesis
      proof (cases "classifyOne ex k cat")
        case Created
        with False e Some w ih' show ?thesis
          by (auto simp: classified_Created classifyOne_def Let_def
                split: option.splits if_splits)
      next
        case Updated
        with False e Some w ih' show ?thesis
          by (auto simp: classified_Updated classifyOne_def Let_def
                split: option.splits if_splits)
      next
        case Unchanged
        with False e Some ih show ?thesis
          by (auto simp: classified_Unchanged classifyOne_def Let_def
                split: option.splits if_splits)
      qed
    qed
  qed
qed

lemma find_snapshot:
  assumes "distinct (map fst es)" and "map_of es f = Some t" and "hasRuleExtension f"
    and "\<forall>n \<in> fst ` set es. toLowerCase n = toLowerCase f \<longrightarrow> n = f"
  shows "find (\<lambda>r. toLowerCase (filename r) = toLowerCase f) (snapshot es)
           = Some \<lparr>filename = f, content = t\<rparr>"
  using assms
proof (induction es)
  case Nil
  then show ?case by simp
next
  case (Cons e es)
  obtain n t' where e: "e = (n, t')" by (cases e)
  show ?case
  proof (cases "n = f")
    case True
    with e Cons.prems show ?thesis by (simp add: snapshot_def)
  next
    case False
    with e Cons.prems have "toLowerCase n \<noteq> toLowerCase f" by auto
    moreover have "find (\<lambda>r. toLowerCase (filename r) = toLowerCase f) (snapshot es)
                     = Some \<lparr>filename = f, content = t\<rparr>"
      using Cons.IH Cons.prems e False by auto
    ultimately show ?thesis using e by (simp add: snapshot_def)
  qed
qed

lemma snapshot_member:
  "r \<in> set (snapshot es) \<Longrightarrow> (filename r, content r) \<in> set es"
  by (auto simp: snapshot_def)

lemma find_snapshot_exact:
  assumes "find (\<lambda>r. toLowerCase (filename r) = toLowerCase f) (snapshot es) = Some r"
    and "distinct (map fst es)"
    and "\<forall>n \<in> fst ` set es. toLowerCase n = toLowerCase f \<longrightarrow> n = f"
  shows "map_of es f = Some (content r)"
proof -
  from assms(1) have "r \<in> set (snapshot es)" and l: "toLowerCase (filename r) = toLowerCase f"
    by (auto simp: find_Some_iff in_set_conv_nth)
  then have m: "(filename r, content r) \<in> set es" by (simp add: snapshot_member)
  then have "filename r \<in> fst ` set es" by force
  with assms(3) l have "filename r = f" by blast
  with m assms(2) show ?thesis by simp
qed

lemma loopListing_names:
  "fst ` set (loopListing ex d es) \<subseteq> fst ` set es \<union> set (targets d)"
proof (induction ex d es rule: loopListing.induct)
  case (1 ex es)
  then show ?case by simp
next
  case (2 ex categoryName rest es)
  then show ?case by (simp add: targets_def)
next
  case (3 ex categoryName cat rest es)
  then show ?case
    by (auto simp: targets_def dom_update split: if_splits)
qed

lemma loopListing_distinct:
  "distinct (map fst es) \<Longrightarrow> distinct (map fst (loopListing ex d es))"
  by (induction ex d es rule: loopListing.induct) (auto simp: distinct_update)

lemma loopListing_other:
  "f \<notin> set (targets d) \<Longrightarrow> map_of (loopListing ex d es) f = map_of es f"
proof (induction ex d es rule: loopListing.induct)
  case (1 ex es)
  then show ?case by simp
next
  case (2 ex categoryName rest es)
  then show ?case by (simp add: targets_def)
next
  case (3 ex categoryName cat rest es)
  then show ?case
    by (auto simp: targets_def update_conv' split: if_splits)
qed

lemma loopListing_live:
  assumes "distinct (targets d)" and "(k, cat) \<in> set (liveEntries d)"
  shows "map_of (loopListing ex d es) (generateFilename k)
           = (if classifyOne ex k cat = Unchanged then map_of es (generateFilename k)
              else Some (convertToMDC k cat))"
  using assms
proof (induction ex d es rule: loopListing.induct)
  case (1 ex es)
  then show ?case by simp
next
  case (2 ex categoryName rest es)
  then show ?case by (simp add: targets_def)
next
  case (3 ex categoryName cat' rest es)
  show ?case
  proof (cases "rules cat' = []")
    case True
    with 3 show ?thesis by (simp add: targets_def)
  next
    case False
    with "3.prems" have d: "distinct (targets rest)"
      and fresh: "generateFilename categoryName \<notin> set (targets rest)"
      by (simp_all add: targets_def)
    from False "3.prems" consider
      (head) "k = categoryName" "cat = cat'" |
      (tail) "(k, cat) \<in> set (liveEntries rest)"
      by auto
    then show ?thesis
    proof cases
      case head
      with False fresh show ?thesis
        by (simp add: loopListing_other update_conv')
    next
      case tail
      then have "generateFilename k \<in> set (targets rest)"
        by (force simp: targets_def)
      with fresh have ne: "generateFilename k \<noteq> generateFilename categoryName" by auto
      show ?thesis
      proof (cases "classifyOne ex categoryName cat' = Unchanged")
        case True
        with False d tail "3.IH"(1) show ?thesis by simp
      next
        case u: False
        with False d tail "3.IH"(2) ne show ?thesis by (simp add: update_conv')
      qed
    qed
  qed
qed

lemma outcomeNames_cover:
  "set (outcomeNames Created ex d) \<union> set (outcomeNames Updated ex d)
     \<union> set (outcomeNames Unchanged ex d) = set (targets d)"
proof
  show "set (outcomeNames Created ex d) \<union> set (outcomeNames Updated ex d)
     \<union> set (outcomeNames Unchanged ex d) \<subseteq> set (targets d)"
    using outcomeNames_subset [of _ ex d] by blast
  show "set (targets d) \<subseteq> set (outcomeNames Created ex d) \<union> set (outcomeNames Updated ex d)
     \<union> set (outcomeNames Unchanged ex d)"
  proof
    fix f assume "f \<in> set (targets d)"
    then obtain k cat where kc: "(k, cat) \<in> set (liveEntries d)" and f: "f = generateFilename k"
      by (auto simp: targets_def)
    then show "f \<in> set (outcomeNames Created ex d) \<union> set (outcomeNames Updated ex d)
     \<union> set (outcomeNames Unchanged ex d)"
      by (cases "classifyOne ex k cat") (force simp: outcomeNames_def)+
  qed
qed

lemma classified_all_unchanged:
  assumes "\<forall>(k, cat) \<in> set (liveEntries d). classifyOne ex k cat = Unchanged"
  shows "classified ex d result = result\<lparr>unchanged := unchanged result @ targets d\<rparr>"
proof -
  have u: "filter (\<lambda>(k, cat). classifyOne ex k cat = Unchanged) (liveEntries d) = liveEntries d"
    using assms by (auto simp: filter_id_conv)
  have c: "filter (\<lambda>(k, cat). classifyOne ex k cat = Created) (liveEntries d) = []"
    using assms by (auto simp: filter_empty_conv)
  have p: "filter (\<lambda>(k, cat). classifyOne ex k cat = Updated) (liveEntries d) = []"
    using assms by (auto simp: filter_empty_conv)
  show ?thesis by (simp add: classified_def outcomeNames_def targets_def u c p)
qed

lemma loopListing_all_unchanged:
  "\<forall>(k, cat) \<in> set (liveEntries d). classifyOne ex k cat = Unchanged \<Longrightarrow>
   loopListing ex d es = es"
  by (induction ex d es rule: loopListing.induct) (auto split: if_splits)

lemma map_of_filter_names:
  "map_of (filter (\<lambda>(n, t). Q n) es) f = (if Q f then map_of es f else None)"
  by (induction es) auto

lemma caseExact_targets:
  assumes "caseExact (summaryFilename # targets d) es0"
    and "fst ` set es \<subseteq> insert summaryFilename (fst ` set es0 \<union> set (targets d))"
  shows "caseExact (summaryFilename # targets d) es"
  unfolding caseExact_def
proof (intro ballI impI)
  fix n f
  assume n: "n \<in> fst ` set es" and f: "f \<in> set (summaryFilename # targets d)"
    and l: "toLowerCase n = toLowerCase f"
  from n assms(2) consider "n \<in> fst ` set es0" | "n = summaryFilename" | "n \<in> set (targets d)"
    by blast
  then show "n = f"
  proof cases
    case 1
    with assms(1) f l show ?thesis unfolding caseExact_def by blast
  next
    case 2
    show ?thesis
    proof (cases "f = summaryFilename")
      case True
      with 2 show ?thesis by simp
    next
      case False
      with f obtain k where "f = generateFilename k" by (auto simp: targets_def)
      with 2 l generateFilename_lower_not_summary [of k] show ?thesis by simp
    qed
  next
    case 3
    then obtain k where k: "n = generateFilename k" by (auto simp: targets_def)
    show ?thesis
    proof (cases "f = summaryFilename")
      case True
      with k l generateFilename_lower_not_summary [of k] show ?thesis by simp
    next
      case False
      with f obtain k' where "f = generateFilename k'" by (auto simp: targets_def)
      with k l show ?thesis by (simp add: generateFilename_lower)
    qed
  qed
qed

subsection \<open>Synchronizing twice\<close>

lemma writeSummary_no_faults:
  assumes "noFaults fs" and "listing fs = Some es"
  shows "\<exists>result' fs' es'.
     writeSummary False ex summary result fs = (Inr result', fs')
     \<and> noFaults fs' \<and> listing fs' = Some es'
     \<and> success result' = success result \<and> error result' = error result
     \<and> set (created result') \<union> set (updated result') \<union> set (unchanged result')
         = insert summaryFilename
             (set (created result) \<union> set (updated result) \<union> set (unchanged result))
     \<and> (es' = AList.update summaryFilename summary es
          \<or> (es' = es
              \<and> (\<exists>e. find (\<lambda>r. toLowerCase (filename r) = toLowerCase summaryFilename) ex
                         = Some e
                       \<and> \<not> needsUpdate (content e) summary)))"
proof -
  let ?fs' = "fs\<lparr>listing := Some (AList.update summaryFilename summary es)\<rparr>"
  have w: "writeUnlessDry False fs summaryFilename summary = Inr ?fs'"
    using assms by (simp add: writeUnlessDry_def writeFileSync_no_faults)
  have nf': "noFaults ?fs'" using assms(1) by (simp add: noFaults_def)
  show ?thesis
  proof (cases "toLowerCase summaryFilename
                  \<notin> set (map (\<lambda>r. toLowerCase (filename r)) ex)")
    case True
    then have "writeSummary False ex summary result fs
                 = (Inr (result\<lparr>created := created result @ [summaryFilename]\<rparr>), ?fs')"
      using w by (simp add: writeSummary_def)
    with nf' show ?thesis by auto
  next
    case False
    then have "find (\<lambda>r. toLowerCase (filename r) = toLowerCase summaryFilename) ex \<noteq> None"
      by (auto simp: find_None_iff)
    then obtain e where
      e: "find (\<lambda>r. toLowerCase (filename r) = toLowerCase summaryFilename) ex = Some e"
      by blast
    show ?thesis
    proof (cases "needsUpdate (content e) summary")
      case True
      with False e w have "writeSummary False ex summary result fs
                 = (Inr (result\<lparr>updated := updated result @ [summaryFilename]\<rparr>), ?fs')"
        by (simp add: writeSummary_def)
      with nf' show ?thesis by auto
    next
      case n: False
      show ?thesis
      proof (cases "summaryFilename \<notin> set (unchanged result)")
        case True
        with n False e have "writeSummary False ex summary result fs
                 = (Inr (result\<lparr>unchanged := unchanged result @ [summaryFilename]\<rparr>), fs)"
          by (simp add: writeSummary_def)
        with assms n e show ?thesis by auto
      next
        case u: False
        with n False e have "writeSummary False ex summary result fs = (Inr result, fs)"
          by (simp add: writeSummary_def)
        with assms n e u show ?thesis by auto
      qed
    qed
  qed
qed

lemma update_names_subset: "fst ` set (AList.update k v al) \<subseteq> insert k (fst ` set al)"
  by (simp add: dom_update)

lemma first_pass:
  assumes nf: "noFaults fs"
    and dist: "distinct (map fst (entries fs))"
    and dt: "distinct (targets d)"
    and ce: "caseExact (summaryFilename # targets d) (entries fs)"
  shows "\<exists>result fs' es'.
     writeRules now d fs False = (result, fs') \<and> success result
     \<and> noFaults fs' \<and> listing fs' = Some es' \<and> inSync now d es'"
proof -
  define es0 where "es0 = entries fs"
  define fs1 where "fs1 = fs\<lparr>listing := Some es0\<rparr>"
  define ex where "ex = snapshot es0"
  define r2 where "r2 = classified ex d initialResult"
  define L2 where "L2 = loopListing ex d es0"
  define fs2 where "fs2 = fs1\<lparr>listing := Some L2\<rparr>"
  have dist0: "distinct (map fst es0)" using dist by (simp add: es0_def)
  have ce0: "caseExact (summaryFilename # targets d) es0" using ce by (simp add: es0_def)
  have en: "ensureRulesDirectory fs = Inr fs1"
    using nf unfolding fs1_def es0_def
    by (cases "listing fs")
       (simp_all add: ensureRulesDirectory_def existsSync_def mkdirSync_def noFaults_def
          entries_def)
  have nf1: "noFaults fs1" and l1: "listing fs1 = Some es0"
    using nf by (simp_all add: noFaults_def fs1_def)
  have rd: "readExistingRules fs1 = Inr ex"
    unfolding ex_def by (rule readExistingRules_no_faults [OF nf1 l1 dist0])
  have loop: "processCategories False ex d initialResult fs1 = (Inr r2, fs2)"
    unfolding r2_def fs2_def L2_def by (rule processCategories_no_faults [OF nf1 l1])
  have nf2: "noFaults fs2" and l2: "listing fs2 = Some L2"
    using nf1 by (simp_all add: noFaults_def fs2_def)
  obtain r3 fs3 L3 where
    summ: "writeSummary False ex (createSummary now d) r2 fs2 = (Inr r3, fs3)" and
    nf3: "noFaults fs3" and l3: "listing fs3 = Some L3" and
    ok3: "success r3 = success r2" and
    names3: "set (created r3) \<union> set (updated r3) \<union> set (unchanged r3)
         = insert summaryFilename
             (set (created r2) \<union> set (updated r2) \<union> set (unchanged r2))" and
    L3: "L3 = AList.update summaryFilename (createSummary now d) L2
          \<or> (L3 = L2
              \<and> (\<exists>e. find (\<lambda>r. toLowerCase (filename r) = toLowerCase summaryFilename) ex
                         = Some e
                       \<and> \<not> needsUpdate (content e) (createSummary now d)))"
    using writeSummary_no_faults [OF nf2 l2, of ex "createSummary now d" r2] by blast
  define keep where "keep = created r3 @ updated r3 @ unchanged r3"
  define L4 where "L4 = filter (\<lambda>(n, t). \<not> stale keep n) L3"
  define fs4 where "fs4 = fs3\<lparr>listing := Some L4\<rparr>"
  have d2: "distinct (map fst L2)"
    unfolding L2_def using dist0 by (rule loopListing_distinct)
  have d3: "distinct (map fst L3)"
  proof (cases "L3 = L2")
    case True
    with d2 show ?thesis by simp
  next
    case False
    with L3 have "L3 = AList.update summaryFilename (createSummary now d) L2" by blast
    with d2 show ?thesis by (simp add: distinct_update)
  qed
  have unl: "\<forall>f. faults fs3 (Unlink f) = None" and rdd: "faults fs3 Readdir = None"
    using nf3 by (simp_all add: noFaults_def)
  have cl: "cleanupOldRules fs3 keep False = (Inr (filter (stale keep) (map fst L3)), fs4)"
    unfolding fs4_def L4_def by (rule cleanupOldRules_no_faults [OF l3 d3 rdd unl])
  have "tryWriteRules now d fs False = (Inr r3, fs4)"
    using en rd loop summ cl by (simp add: tryWriteRules_def keep_def)
  then have run: "writeRules now d fs False = (r3, fs4)"
    by (simp add: writeRules_def)
  have ok: "success r3" using ok3 by (simp add: r2_def classified_def initialResult_def)
  have nf4: "noFaults fs4" and l4: "listing fs4 = Some L4"
    using nf3 by (simp_all add: noFaults_def fs4_def)
  \<comment> \<open>the keep list holds every target and the summary\<close>
  have "set (created r2) \<union> set (updated r2) \<union> set (unchanged r2) = set (targets d)"
    using outcomeNames_cover [of ex d] by (simp add: r2_def classified_def initialResult_def)
  with names3 have keep: "set keep = insert summaryFilename (set (targets d))"
    by (simp add: keep_def Un_assoc)
  have kept: "\<not> stale keep f" if "f \<in> insert summaryFilename (set (targets d))" for f
  proof -
    from that keep have "f \<in> set keep" by simp
    then show ?thesis by (rule stale_kept)
  qed
  have m4: "map_of L4 f = map_of L3 f" if "f \<in> insert summaryFilename (set (targets d))" for f
    using kept [OF that] by (simp add: L4_def map_of_filter_names)
  \<comment> \<open>names\<close>
  have n2: "fst ` set L2 \<subseteq> fst ` set es0 \<union> set (targets d)"
    unfolding L2_def by (rule loopListing_names)
  have n3: "fst ` set L3 \<subseteq> insert summaryFilename (fst ` set L2)"
  proof (cases "L3 = L2")
    case True
    then show ?thesis by blast
  next
    case False
    with L3 have eq: "L3 = AList.update summaryFilename (createSummary now d) L2" by blast
    show ?thesis unfolding eq by (rule update_names_subset)
  qed
  have n4: "fst ` set L4 \<subseteq> fst ` set L3"
    unfolding L4_def by (rule image_mono) (rule filter_is_subset)
  have "fst ` set L4 \<subseteq> insert summaryFilename (fst ` set L2)"
    using n4 n3 by (rule subset_trans)
  also have "\<dots> \<subseteq> insert summaryFilename (fst ` set es0 \<union> set (targets d))"
    using n2 by (rule insert_mono)
  finally have names:
    "fst ` set L4 \<subseteq> insert summaryFilename (fst ` set es0 \<union> set (targets d))" .
  have ce4: "caseExact (summaryFilename # targets d) L4"
    using ce0 names by (rule caseExact_targets)
  have d4: "distinct (map fst L4)" using d3 by (simp add: L4_def distinct_map_filter)
  \<comment> \<open>the category files\<close>
  have live: "\<exists>t. map_of L4 (generateFilename k) = Some t
                 \<and> \<not> needsUpdate t (convertToMDC k cat)"
    if kc: "(k, cat) \<in> set (liveEntries d)" for k cat
  proof -
    define f where "f = generateFilename k"
    have ft: "f \<in> set (targets d)" using kc by (force simp: targets_def f_def)
    have fs: "f \<noteq> summaryFilename" by (simp add: f_def generateFilename_not_summary)
    have "map_of L3 f = map_of L2 f"
    proof (cases "L3 = L2")
      case True
      then show ?thesis by simp
    next
      case False
      with L3 have "L3 = AList.update summaryFilename (createSummary now d) L2" by blast
      with fs show ?thesis by (simp add: update_conv')
    qed
    with m4 [of f] ft have m: "map_of L4 f = map_of L2 f" by simp
    have ll: "map_of L2 f = (if classifyOne ex k cat = Unchanged then map_of es0 f
                              else Some (convertToMDC k cat))"
      unfolding L2_def f_def by (rule loopListing_live [OF dt kc])
    show ?thesis
    proof (cases "classifyOne ex k cat = Unchanged")
      case False
      with ll m have "map_of L4 f = Some (convertToMDC k cat)" by simp
      then show ?thesis by (simp add: needsUpdate_refl f_def)
    next
      case True
      then obtain e where
        e: "find (\<lambda>r. toLowerCase (filename r) = toLowerCase f) (snapshot es0) = Some e" and
        same: "\<not> needsUpdate (content e) (convertToMDC k cat)"
        by (auto simp: classifyOne_def f_def ex_def split: option.splits if_splits)
      have "\<forall>n \<in> fst ` set es0. toLowerCase n = toLowerCase f \<longrightarrow> n = f"
        using ce0 ft unfolding caseExact_def by simp
      with e dist0 have "map_of es0 f = Some (content e)" by (rule find_snapshot_exact)
      with ll True m same show ?thesis by (simp add: f_def)
    qed
  qed
  \<comment> \<open>the summary\<close>
  have summary: "\<exists>t. map_of L4 summaryFilename = Some t
                  \<and> normalize t = normalize (createSummary now d)"
  proof -
    have m: "map_of L4 summaryFilename = map_of L3 summaryFilename" using m4 by simp
    show ?thesis
    proof (cases "L3 = AList.update summaryFilename (createSummary now d) L2")
      case True
      with m show ?thesis by (simp add: update_conv')
    next
      case False
      with L3 obtain e where eq: "L3 = L2" and
        e: "find (\<lambda>r. toLowerCase (filename r) = toLowerCase summaryFilename) (snapshot es0)
              = Some e" and
        same: "\<not> needsUpdate (content e) (createSummary now d)"
        unfolding ex_def by blast
      have "\<forall>n \<in> fst ` set es0. toLowerCase n = toLowerCase summaryFilename
              \<longrightarrow> n = summaryFilename"
        using ce0 unfolding caseExact_def by simp
      with e dist0 have "map_of es0 summaryFilename = Some (content e)"
        by (rule find_snapshot_exact)
      moreover have "summaryFilename \<notin> set (targets d)"
        using generateFilename_not_summary [symmetric] by (auto simp: targets_def)
      ultimately have "map_of L2 summaryFilename = Some (content e)"
        by (simp add: L2_def loopListing_other)
      with eq m same show ?thesis by (simp add: needsUpdate_def)
    qed
  qed
  have "inSync now d L4"
    unfolding inSync_def using d4 ce4 live summary by blast
  with run ok nf4 l4 show ?thesis by blast
qed

lemma second_pass:
  assumes nf: "noFaults fs" and l: "listing fs = Some es" and sync: "inSync now1 d es"
    and t1: "timestampLike now1" and t2: "timestampLike now2" and ne: "now1 \<noteq> now2"
  shows "fst (writeRules now2 d fs False)
           = \<lparr>success = True, created = [], updated = [summaryFilename],
              unchanged = targets d, error = None\<rparr>"
proof -
  define ex where "ex = snapshot es"
  from sync have dist: "distinct (map fst es)"
    and ce: "caseExact (summaryFilename # targets d) es"
    and live: "\<And>k cat. (k, cat) \<in> set (liveEntries d) \<Longrightarrow>
                 \<exists>t. map_of es (generateFilename k) = Some t
                     \<and> \<not> needsUpdate t (convertToMDC k cat)"
    and summary: "\<exists>t. map_of es summaryFilename = Some t
                     \<and> normalize t = normalize (createSummary now1 d)"
    unfolding inSync_def by blast+
  have en: "ensureRulesDirectory fs = Inr fs"
    using l by (simp add: ensureRulesDirectory_def existsSync_def)
  have rd: "readExistingRules fs = Inr ex"
    unfolding ex_def by (rule readExistingRules_no_faults [OF nf l dist])
  have unch: "\<forall>(k, cat) \<in> set (liveEntries d). classifyOne ex k cat = Unchanged"
  proof (intro ballI, clarify)
    fix k cat assume kc: "(k, cat) \<in> set (liveEntries d)"
    define f where "f = generateFilename k"
    from live [OF kc] obtain t where
      t: "map_of es f = Some t" and same: "\<not> needsUpdate t (convertToMDC k cat)"
      unfolding f_def by blast
    have ft: "f \<in> set (targets d)" using kc by (force simp: targets_def f_def)
    have ext: "hasRuleExtension f" by (simp add: f_def generateFilename_hasRuleExtension)
    have "\<forall>n \<in> fst ` set es. toLowerCase n = toLowerCase f \<longrightarrow> n = f"
      using ce ft unfolding caseExact_def by simp
    with dist t ext
    have "find (\<lambda>r. toLowerCase (filename r) = toLowerCase f) (snapshot es)
            = Some \<lparr>filename = f, content = t\<rparr>"
      by (rule find_snapshot)
    with same show "classifyOne ex k cat = Unchanged"
      by (simp add: classifyOne_def ex_def f_def)
  qed
  define r2 where "r2 = initialResult\<lparr>unchanged := targets d\<rparr>"
  have c: "classified ex d initialResult = r2"
    using classified_all_unchanged [OF unch, of initialResult]
    by (simp add: r2_def initialResult_def)
  have ll: "loopListing ex d es = es" using unch by (rule loopListing_all_unchanged)
  define fs2 where "fs2 = fs\<lparr>listing := Some es\<rparr>"
  have loop: "processCategories False ex d initialResult fs = (Inr r2, fs2)"
    using processCategories_no_faults [OF nf l, of ex d initialResult]
    by (simp add: c ll fs2_def)
  have nf2: "noFaults fs2" and l2: "listing fs2 = Some es"
    using nf by (simp_all add: noFaults_def fs2_def)
  from summary obtain t where
    t: "map_of es summaryFilename = Some t" and
    nt: "normalize t = normalize (createSummary now1 d)"
    by blast
  have "\<forall>n \<in> fst ` set es. toLowerCase n = toLowerCase summaryFilename \<longrightarrow> n = summaryFilename"
    using ce unfolding caseExact_def by simp
  with dist t summaryFilename_hasRuleExtension
  have fnd: "find (\<lambda>r. toLowerCase (filename r) = toLowerCase summaryFilename) ex
               = Some \<lparr>filename = summaryFilename, content = t\<rparr>"
    unfolding ex_def by (rule find_snapshot)
  then have "\<lparr>filename = summaryFilename, content = t\<rparr> \<in> set ex"
    by (auto simp: find_Some_iff)
  then have mem: "toLowerCase summaryFilename \<in> set (map (\<lambda>r. toLowerCase (filename r)) ex)"
    by force
  have upd: "needsUpdate t (createSummary now2 d)"
    using normalize_createSummary_inj [OF t1 t2 ne, of d] nt by (simp add: needsUpdate_def)
  define r3 where "r3 = r2\<lparr>updated := updated r2 @ [summaryFilename]\<rparr>"
  define L3 where "L3 = AList.update summaryFilename (createSummary now2 d) es"
  define fs3 where "fs3 = fs2\<lparr>listing := Some L3\<rparr>"
  have summ: "writeSummary False ex (createSummary now2 d) r2 fs2 = (Inr r3, fs3)"
    using mem fnd upd writeFileSync_no_faults [OF nf2 l2]
    by (simp add: writeSummary_def writeUnlessDry_def r3_def fs3_def L3_def)
  have l3: "listing fs3 = Some L3" by (simp add: fs3_def)
  have d3: "distinct (map fst L3)" using dist by (simp add: L3_def distinct_update)
  have unl: "\<forall>f. faults fs3 (Unlink f) = None" and rdd: "faults fs3 Readdir = None"
    using nf2 by (simp_all add: noFaults_def fs3_def)
  define keep where "keep = created r3 @ updated r3 @ unchanged r3"
  obtain removed fs4 where cl: "cleanupOldRules fs3 keep False = (Inr removed, fs4)"
    using cleanupOldRules_no_faults [OF l3 d3 rdd unl, of keep] by blast
  have "tryWriteRules now2 d fs False = (Inr r3, fs4)"
    using en rd loop summ cl by (simp add: tryWriteRules_def keep_def)
  then have "fst (writeRules now2 d fs False) = r3" by (simp add: writeRules_def)
  then show ?thesis by (simp add: r3_def r2_def initialResult_def)
qed

text \<open>
  Claim C3, as the code has it. Take a directory in which no file system operation
  raises, no name is listed twice and every name is ASCII; data whose live categories
  have ASCII keys without a path separator, so that each derived name is a file of that
  directory, and derive distinct file names; and suppose no name in the directory differs
  only in letter case from one of these file names or from the name of the summary. When
  the data is synchronized at one time and synchronized again at a different time, the
  first pass succeeds and the second pass creates nothing, classifies every category file
  as unchanged, and classifies the summary document, and it alone, as updated.
\<close>

theorem second_sync_only_updates_summary:
  assumes "noFaults fs"
    and "distinct (map fst (entries fs))"
    and "distinct (targets d)"
    and "caseExact (summaryFilename # targets d) (entries fs)"
    and "timestampLike now1" and "timestampLike now2" and "now1 \<noteq> now2"
    and "plainKeys d" and "asciiNames (map fst (entries fs))"
  shows "success (fst (writeRules now1 d fs False))
     \<and> fst (writeRules now2 d (snd (writeRules now1 d fs False)) False)
         = \<lparr>success = True, created = [], updated = [summaryFilename],
            unchanged = targets d, error = None\<rparr>"
proof -
  obtain result fs' es' where
    run: "writeRules now1 d fs False = (result, fs')" and ok: "success result" and
    nf': "noFaults fs'" and l': "listing fs' = Some es'" and sync: "inSync now1 d es'"
    using first_pass [OF assms(1-4), of now1] by blast
  from second_pass [OF nf' l' sync assms(5-7)] run ok show ?thesis by simp
qed

text \<open>
  A stale file and an outdated rule file in the directory, one live category and one
  empty one, and two passes a day apart.
\<close>

theorem second_sync_only_updates_summary_witness:
  "noFaults (directory [(''old.mdc'', ''x''), (''frameworks.mdc'', ''y'')])
   \<and> distinct (map fst (entries (directory [(''old.mdc'', ''x''), (''frameworks.mdc'', ''y'')])))
   \<and> distinct (targets [(''frameworks'', Some (exampleCategory ''Frameworks'' [exampleRule])),
                        (''structure'', Some (exampleCategory ''Project Structure'' []))])
   \<and> caseExact
        (summaryFilename
           # targets [(''frameworks'', Some (exampleCategory ''Frameworks'' [exampleRule])),
                      (''structure'', Some (exampleCategory ''Project Structure'' []))])
        (entries (directory [(''old.mdc'', ''x''), (''frameworks.mdc'', ''y'')]))
   \<and> timestampLike ''2025-11-07T07:33:35.710Z''
   \<and> timestampLike ''2025-11-08T07:33:35.710Z''
   \<and> plainKeys [(''frameworks'', Some (exampleCategory ''Frameworks'' [exampleRule])),
                  (''structure'', Some (exampleCategory ''Project Structure'' []))]
   \<and> asciiNames (map fst (entries (directory [(''old.mdc'', ''x''), (''frameworks.mdc'', ''y'')])))
   \<and> fst (writeRules ''2025-11-08T07:33:35.710Z''
        [(''frameworks'', Some (exampleCategory ''Frameworks'' [exampleRule])),
         (''structure'', Some (exampleCategory ''Project Structure'' []))]
        (snd (writeRules ''2025-11-07T07:33:35.710Z''
           [(''frameworks'', Some (exampleCategory ''Frameworks'' [exampleRule])),
            (''structure'', Some (exampleCategory ''Project Structure'' []))]
           (directory [(''old.mdc'', ''x''), (''frameworks.mdc'', ''y'')]) False)) False)
     = \<lparr>success = True, created = [], updated = [''README.md''],
        unchanged = [''frameworks.mdc''], error = None\<rparr>"
proof -
  let ?fs = "directory [(''old.mdc'', ''x''), (''frameworks.mdc'', ''y'')]"
  let ?d = "[(''frameworks'', Some (exampleCategory ''Frameworks'' [exampleRule])),
             (''structure'', Some (exampleCategory ''Project Structure'' []))]"
  have 1: "noFaults ?fs" by (simp add: noFaults_def directory_def)
  have 2: "distinct (map fst (entries ?fs))" by (simp add: entries_def directory_def)
  have tg: "targets ?d = [''frameworks.mdc'']" by code_simp
  have 3: "distinct (targets ?d)" by (simp add: tg)
  have 4: "caseExact (summaryFilename # targets ?d) (entries ?fs)"
    unfolding tg by code_simp
  have 5: "timestampLike ''2025-11-07T07:33:35.710Z''" by code_simp
  have 6: "timestampLike ''2025-11-08T07:33:35.710Z''" by code_simp
  have 7: "''2025-11-07T07:33:35.710Z'' \<noteq> ''2025-11-08T07:33:35.710Z''" by simp
  have 8: "plainKeys ?d" by code_simp
  have 9: "asciiNames (map fst (entries ?fs))"
    by (simp add: entries_def directory_def asciiNames_def asciiText_def)
  from second_sync_only_updates_summary [OF 1 2 3 4 5 6 7 8 9] 1 2 3 4 5 6 8 9 tg
  show ?thesis by (simp add: summaryFilename_def)
qed

text \<open>
  Claim C3 as stated fails when two keys derive the same file name: \<open>A\<close> and \<open>a\<close> both
  write \<open>a.mdc\<close>, the second pass finds the text of \<open>a\<close> there when it compares the text of
  \<open>A\<close>, and the category file is classified as updated again.
\<close>

theorem second_sync_updates_colliding_file_counterexample:
  "updated (fst (writeRules ''2025-11-08T07:33:35.710Z''
       [(''A'', Some (exampleCategory ''Upper'' [exampleRule])),
        (''a'', Some (exampleCategory ''Lower'' [exampleRule]))]
       (snd (writeRules ''2025-11-07T07:33:35.710Z''
          [(''A'', Some (exampleCategory ''Upper'' [exampleRule])),
           (''a'', Some (exampleCategory ''Lower'' [exampleRule]))]
          (directory []) False)) False))
   = [''a.mdc'', ''README.md'']"
  by code_simp


text \<open>
  The other conditions of the statement are needed as well. A file whose name differs
  from a derived file name in letter case only is found before the file the first pass
  writes, so the category file is updated again; and two passes at the same time write the
  same summary, which is then unchanged.
\<close>

lemma second_sync_case_variant_example:
  "updated (fst (writeRules ''2025-11-08T07:33:35.710Z''
       [(''a'', Some (exampleCategory ''Lower'' [exampleRule]))]
       (snd (writeRules ''2025-11-07T07:33:35.710Z''
          [(''a'', Some (exampleCategory ''Lower'' [exampleRule]))]
          (directory [(''A.mdc'', ''x'')]) False)) False))
   = [''a.mdc'', ''README.md'']"
  by code_simp

lemma second_sync_same_time_example:
  "fst (writeRules ''2025-11-07T07:33:35.710Z''
       [(''a'', Some (exampleCategory ''Lower'' [exampleRule]))]
       (snd (writeRules ''2025-11-07T07:33:35.710Z''
          [(''a'', Some (exampleCategory ''Lower'' [exampleRule]))]
          (directory []) False)) False)
   = \<lparr>success = True, created = [], updated = [],
      unchanged = [''a.mdc'', ''README.md''], error = None\<rparr>"
  by code_simp

subsection \<open>The example scenarios of the specification\<close>

text \<open>
  One category with one rule, synchronized into an empty directory, produces two files,
  both created; a single category without rules produces the summary alone, and the
  summary lists no category.
\<close>

lemma sync_example_two_files:
  "fst (writeRules ''2025-11-07T07:33:35.710Z''
       [(''frameworks'', Some (exampleCategory ''Frameworks'' [exampleRule]))]
       (directory []) False)
     = \<lparr>success = True, created = [''frameworks.mdc'', ''README.md''], updated = [],
        unchanged = [], error = None\<rparr>
   \<and> map_option (map fst)
       (listing (snd (writeRules ''2025-11-07T07:33:35.710Z''
          [(''frameworks'', Some (exampleCategory ''Frameworks'' [exampleRule]))]
          (directory []) False)))
     = Some [''frameworks.mdc'', ''README.md'']"
  by code_simp

lemma sync_example_summary_only:
  "fst (writeRules ''2025-11-07T07:33:35.710Z''
       [(''codePatterns'', Some (exampleCategory ''X'' []))] (directory []) False)
     = \<lparr>success = True, created = [''README.md''], updated = [], unchanged = [],
        error = None\<rparr>
   \<and> map_option (map fst)
       (listing (snd (writeRules ''2025-11-07T07:33:35.710Z''
          [(''codePatterns'', Some (exampleCategory ''X'' []))] (directory []) False)))
     = Some [''README.md'']
   \<and> summaryLines [(''codePatterns'', Some (exampleCategory ''X'' []))] = []"
  by code_simp

end
